theory Spec2Isabelle
  imports Complex_Main
begin

section \<open>Arrays, as numpy has them\<close>

text \<open>
  A numpy array is a shape and a flat row-major buffer. The buffer of a real array
  has as many elements as the product of the shape: \<open>wf_ndarray\<close>.
\<close>

datatype error = AssertionError | IndexError | ValueError | ZeroDivisionError

record 'a ndarray =
  shape :: "nat list"
  data :: "'a list"

definition wf_ndarray :: "'a ndarray \<Rightarrow> bool" where
  "wf_ndarray a = (length (data a) = prod_list (shape a))"

text \<open>\<open>np.zeros(sh)\<close>.\<close>

definition zeros :: "nat list \<Rightarrow> ('a::zero) ndarray" where
  "zeros sh = \<lparr>shape = sh, data = replicate (prod_list sh) 0\<rparr>"

text \<open>\<open>a[x][y]\<close> and \<open>a[x][y] = v\<close> on a 2-dimensional array, indices in range.\<close>

definition item2 :: "'a ndarray \<Rightarrow> nat \<Rightarrow> nat \<Rightarrow> 'a" where
  "item2 a x y = data a ! (x * (shape a ! 1) + y)"

definition setitem2 :: "'a ndarray \<Rightarrow> nat \<Rightarrow> nat \<Rightarrow> 'a \<Rightarrow> 'a ndarray" where
  "setitem2 a x y v = a\<lparr>data := (data a)[x * (shape a ! 1) + y := v]\<rparr>"

text \<open>
  \<open>image[:,:,0]\<close> on a 3-dimensional array of shape \<open>(r, c, ch)\<close>: the array of shape
  \<open>(r, c)\<close> of the elements at channel 0. numpy raises IndexError when the last axis
  has size 0 (and when the array has fewer than three axes).
\<close>

definition channel0 :: "'a ndarray \<Rightarrow> error + 'a ndarray" where
  "channel0 a =
     (case shape a of
        [r, c, ch] \<Rightarrow>
          if ch = 0 then Inl IndexError
          else Inr \<lparr>shape = [r, c], data = map (\<lambda>k. data a ! (k * ch)) [0..<r * c]\<rparr>
      | _ \<Rightarrow> Inl IndexError)"

text \<open>
  \<open>np.multiply(a, b)\<close> for two arrays of the same shape, which is how \<open>mask\<close> calls
  it (both are 28x28 there): the elementwise product. Pixels are modelled in a
  semiring with 0 and 1, where \<open>x * 1 = x\<close> and \<open>x * 0 = 0\<close> as for finite floats.
\<close>

definition multiply :: "('a::semiring_1) ndarray \<Rightarrow> 'a ndarray \<Rightarrow> 'a ndarray" where
  "multiply a b = \<lparr>shape = shape a, data = map2 (*) (data a) (data b)\<rparr>"

text \<open>
  \<open>np.expand_dims(X, axis=3)\<close> as seen on one image of the batch: a trailing axis of
  size 1 over the same buffer.
\<close>

definition expand_dims_last :: "'a ndarray \<Rightarrow> 'a ndarray" where
  "expand_dims_last a = a\<lparr>shape := shape a @ [1]\<rparr>"

text \<open>\<open>range(a, b)\<close> over Python integers.\<close>

definition py_range :: "int \<Rightarrow> int \<Rightarrow> int list" where
  "py_range a b = [a .. b - 1]"

section \<open>The random module\<close>

text \<open>
  The generator is a tape of raw draws. \<open>random.randint(a, b)\<close> (called with
  \<open>a \<le> b\<close> only) consumes one draw and returns an integer between \<open>a\<close> and \<open>b\<close>
  inclusive; every value of that interval is returned for some draw.
\<close>

type_synonym rng = "nat \<Rightarrow> nat"

definition randint :: "int \<Rightarrow> int \<Rightarrow> rng \<Rightarrow> int \<times> rng" where
  "randint a b g = (a + int (g 0 mod nat (b - a + 1)), \<lambda>n. g (Suc n))"

text \<open>\<open>[random.randint(a, b) for _ in range(n)]\<close>.\<close>

fun randints :: "nat \<Rightarrow> int \<Rightarrow> int \<Rightarrow> rng \<Rightarrow> int list \<times> rng" where
  "randints 0 a b g = ([], g)"
| "randints (Suc n) a b g =
     (let (x, g') = randint a b g;
          (xs, g'') = randints n a b g'
      in (x # xs, g''))"

text \<open>A tape that starts with the raw draws \<open>ds\<close>.\<close>

definition tape_of :: "nat list \<Rightarrow> rng" where
  "tape_of ds = (\<lambda>n. if n < length ds then ds ! n else 0)"

section \<open>The masking routine\<close>

definition RANDOM_WALK_LENGTH :: nat where
  "RANDOM_WALK_LENGTH = 40"

definition VISIBLE_RADIUS :: int where
  "VISIBLE_RADIUS = 5"

type_synonym position = "int \<times> int"

text \<open>The \<open>if\<close>/\<open>elif\<close> chain that moves the agent; any other value leaves it in place.\<close>

definition move :: "int \<Rightarrow> position \<Rightarrow> position" where
  "move s agent_position =
     (if s = 0 then (fst agent_position - 1, snd agent_position)
      else if s = 1 then (fst agent_position, snd agent_position + 1)
      else if s = 2 then (fst agent_position + 1, snd agent_position)
      else if s = 3 then (fst agent_position, snd agent_position - 1)
      else agent_position)"

text \<open>The two nested \<open>for\<close> statements that mark the window around the agent, clipped to the grid.\<close>

definition mark_row :: "int \<Rightarrow> int list \<Rightarrow> ('a::one) ndarray \<Rightarrow> 'a ndarray" where
  "mark_row x ys m =
     fold (\<lambda>y m. if 0 \<le> x \<and> x < 28 \<and> 0 \<le> y \<and> y < 28
                  then setitem2 m (nat x) (nat y) 1 else m) ys m"

definition update_mask :: "position \<Rightarrow> ('a::one) ndarray \<Rightarrow> 'a ndarray" where
  "update_mask agent_position m =
     fold (\<lambda>x m. mark_row x
              (py_range (snd agent_position - VISIBLE_RADIUS)
                        (snd agent_position + VISIBLE_RADIUS + 1)) m)
          (py_range (fst agent_position - VISIBLE_RADIUS)
                    (fst agent_position + VISIBLE_RADIUS + 1)) m"

text \<open>
  The body of \<open>for i in range(RANDOM_WALK_LENGTH)\<close>, over the indices still to run.
  Reading \<open>random_walk_steps[i]\<close> beyond the list raises IndexError.
\<close>

fun walk :: "int list \<Rightarrow> nat list \<Rightarrow> position \<times> ('a::one) ndarray
    \<Rightarrow> error + position \<times> 'a ndarray" where
  "walk random_walk_steps [] st = Inr st"
| "walk random_walk_steps (i # is) (agent_position, m) =
     (if i < length random_walk_steps
      then let agent_position = move (random_walk_steps ! i) agent_position
           in walk random_walk_steps is (agent_position, update_mask agent_position m)
      else Inl IndexError)"

text \<open>
  Lines 299 to 320: the start position, the steps, and the walk that builds the
  mask array. It returns the last position too.
\<close>

definition initial_draws :: "rng \<Rightarrow> position \<times> int list \<times> rng" where
  "initial_draws g =
     (let (r0, g) = randint 7 20 g;
          (c0, g) = randint 7 20 g;
          (random_walk_steps, g) = randints RANDOM_WALK_LENGTH 0 3 g
      in ((r0, c0), random_walk_steps, g))"

definition random_walk :: "rng \<Rightarrow> error + (position \<times> ('a::{zero,one}) ndarray) \<times> rng" where
  "random_walk g =
     (let (agent_position, random_walk_steps, g) = initial_draws g
      in case walk random_walk_steps [0..<RANDOM_WALK_LENGTH] (agent_position, zeros [28, 28]) of
           Inl e \<Rightarrow> Inl e
         | Inr st \<Rightarrow> Inr (st, g))"

text \<open>
  \<open>mask(image, walk_length, visible_radius)\<close>, with the generator passed in and
  returned. The two parameters have the module constants as defaults.
\<close>

definition mask :: "('a::semiring_1) ndarray \<Rightarrow> int \<Rightarrow> int \<Rightarrow> rng \<Rightarrow> error + 'a ndarray \<times> rng" where
  "mask img walk_length visible_radius g =
     (case (if length (shape img) = 3 then channel0 img else Inr img) of
        Inl e \<Rightarrow> Inl e
      | Inr img \<Rightarrow>
          if shape img \<noteq> [28, 28] then Inl AssertionError
          else (case random_walk g of
                  Inl e \<Rightarrow> Inl e
                | Inr ((agent_position, m), g) \<Rightarrow> Inr (multiply img m, g)))"

text \<open>\<open>mask(image)\<close>: both parameters at their defaults.\<close>

definition mask_default :: "('a::semiring_1) ndarray \<Rightarrow> rng \<Rightarrow> error + 'a ndarray \<times> rng" where
  "mask_default img g = mask img (int RANDOM_WALK_LENGTH) VISIBLE_RADIUS g"

section \<open>The ACGAN class\<close>

text \<open>
  Images are arrays of real pixels. A batch (an array with a leading axis of size N) is
  the list of its N images. The constants are those of \<open>ACGAN.__init__\<close>.
\<close>

type_synonym image = "real ndarray"

definition img_rows :: nat where "img_rows = 28"
definition img_cols :: nat where "img_cols = 28"
definition channels :: nat where "channels = 1"
definition img_shape :: "nat list" where "img_shape = [img_rows, img_cols, channels]"
definition num_classes :: nat where "num_classes = 10"

text \<open>
  Raising is returning \<open>Inl\<close>; \<open>ebind\<close> runs the rest of a block after a call
  that may raise.
\<close>

definition ebind :: "error + 'a \<Rightarrow> ('a \<Rightarrow> error + 'b) \<Rightarrow> error + 'b" where
  "ebind m f = (case m of Inl e \<Rightarrow> Inl e | Inr x \<Rightarrow> f x)"

text \<open>
  The quotient of two counts as numpy computes it: dividing by zero raises nothing and
  gives \<open>nan\<close> (0 / 0) or \<open>inf\<close>. A finite quotient is kept exact.
\<close>

datatype npfloat = Finite real | PosInf | NaN

definition true_divide :: "nat \<Rightarrow> nat \<Rightarrow> npfloat" where
  "true_divide a b =
     (if b = 0 then (if a = 0 then NaN else PosInf) else Finite (real a / real b))"

text \<open>
  \<open>np.argmax\<close> of one row, scanning from the left and keeping the first maximum; it
  raises ValueError on an empty row. \<open>argmax_axis1\<close> is \<open>np.argmax(a, axis=1)\<close>.
\<close>

fun argmax_from :: "nat \<Rightarrow> real \<Rightarrow> nat \<Rightarrow> real list \<Rightarrow> nat" where
  "argmax_from best v i [] = best"
| "argmax_from best v i (x # xs) =
     (if v < x then argmax_from i x (Suc i) xs else argmax_from best v (Suc i) xs)"

definition argmax :: "real list \<Rightarrow> error + nat" where
  "argmax xs = (case xs of [] \<Rightarrow> Inl ValueError | x # rest \<Rightarrow> Inr (argmax_from 0 x 1 rest))"

fun argmax_axis1 :: "real list list \<Rightarrow> error + nat list" where
  "argmax_axis1 [] = Inr []"
| "argmax_axis1 (row # rows) =
     ebind (argmax row) (\<lambda>p. ebind (argmax_axis1 rows) (\<lambda>ps. Inr (p # ps)))"

text \<open>
  \<open>a[indices]\<close> with an array of indices: the rows at these indices, IndexError when
  one is out of range.
\<close>

fun take_rows :: "'a list \<Rightarrow> nat list \<Rightarrow> error + 'a list" where
  "take_rows a [] = Inr []"
| "take_rows a (k # ks) =
     (if k < length a then ebind (take_rows a ks) (\<lambda>rs. Inr (a ! k # rs))
      else Inl IndexError)"

text \<open>
  \<open>np.where(y == i)[0]\<close>, and \<open>np.sum\<close> of an array of booleans.
\<close>

definition where_eq :: "nat list \<Rightarrow> nat \<Rightarrow> nat list" where
  "where_eq y i = filter (\<lambda>k. y ! k = i) [0..<length y]"

definition np_sum :: "bool list \<Rightarrow> nat" where
  "np_sum bs = length (filter (\<lambda>b. b) bs)"

text \<open>
  The body of the loop \<open>for i in range(10)\<close> of \<open>test_masked_accuracy\<close> (lines 220
  to 225), and the loop, which appends to \<open>recalls\<close>.
\<close>

definition recall_of :: "real list list \<Rightarrow> nat list \<Rightarrow> nat \<Rightarrow> error + npfloat" where
  "recall_of classifications y i =
     (let indices = where_eq y i
      in ebind (take_rows classifications indices) (\<lambda>rows.
         ebind (argmax_axis1 rows) (\<lambda>predicted_labels.
         Inr (true_divide (np_sum (map (\<lambda>p. p = i) predicted_labels)) (length indices)))))"

fun recalls_loop :: "real list list \<Rightarrow> nat list \<Rightarrow> nat list \<Rightarrow> npfloat list
    \<Rightarrow> error + npfloat list" where
  "recalls_loop classifications y [] recalls = Inr recalls"
| "recalls_loop classifications y (i # is) recalls =
     ebind (recall_of classifications y i)
       (\<lambda>recall. recalls_loop classifications y is (recalls @ [recall]))"

text \<open>
  The calls made to the libraries (numpy's generator, Keras, \<open>print\<close>, the files
  written), in the order they are made, with their arguments. The flag of a training
  call is the value \<open>discriminator.trainable\<close> had when that model was compiled.
\<close>

datatype call =
    NpRandomRandint int int nat
  | GeneratorPredict "image list"
  | DiscriminatorPredict "image list"
  | DiscriminatorTrainOnBatch bool "image list" "real list" "nat list"
  | CombinedTrainOnBatch bool "image list" "real list" "nat list"
  | Print nat real real real real
  | SaveModel string
  | SaveFig string
  | SaveSamples nat

text \<open>
  Keras is not part of the repository: the networks are parameters. \<open>'gw\<close> and
  \<open>'dw\<close> are the weights of the generator and of the discriminator. A training call
  returns the list of losses and metrics and the updated weights; the combined model
  holds the layers of both networks.
\<close>

record ('gw, 'dw) keras =
  generator_predict :: "'gw \<Rightarrow> image list \<Rightarrow> image list"
  discriminator_predict :: "'dw \<Rightarrow> image list \<Rightarrow> real list list \<times> real list list"
  discriminator_train_on_batch ::
    "bool \<Rightarrow> 'dw \<Rightarrow> image list \<Rightarrow> real list \<Rightarrow> nat list \<Rightarrow> real list \<times> 'dw"
  combined_train_on_batch ::
    "bool \<Rightarrow> 'gw \<Rightarrow> 'dw \<Rightarrow> image list \<Rightarrow> real list \<Rightarrow> nat list \<Rightarrow> real list \<times> 'gw \<times> 'dw"

text \<open>
  The fields of \<open>self\<close>, the states of the two random generators (module
  \<open>random\<close>, which \<open>mask\<close> draws from, and \<open>np.random\<close>), and the calls made so far.
  \<open>discriminator_compiled\<close> and \<open>combined_compiled\<close> hold the value of
  \<open>discriminator.trainable\<close> at the time the discriminator and the combined model
  were compiled.
\<close>

record ('gw, 'dw) acgan =
  generator :: 'gw
  discriminator :: 'dw
  discriminator_trainable :: bool
  discriminator_compiled :: bool
  combined_compiled :: bool
  X_train :: "image list"
  y_train :: "nat list"
  X_test :: "image list"
  y_test :: "nat list"
  X_test_masked :: "image list"
  accuracy_scores :: "(npfloat \<times> nat) list"
  recall_scores :: "(npfloat list \<times> nat) list"
  py_random :: rng
  np_random :: rng
  calls :: "call list"

definition called :: "call \<Rightarrow> ('gw, 'dw) acgan \<Rightarrow> ('gw, 'dw) acgan" where
  "called c s = s\<lparr>calls := calls s @ [c]\<rparr>"

text \<open>
  \<open>[mask(img) for img in imgs]\<close>: the images are masked in order, each call drawing
  from the generator the previous one left.
\<close>

fun mask_all :: "image list \<Rightarrow> rng \<Rightarrow> error + image list \<times> rng" where
  "mask_all [] g = Inr ([], g)"
| "mask_all (img # imgs) g =
     ebind (mask_default img g) (\<lambda>(m, g).
     ebind (mask_all imgs g) (\<lambda>(ms, g). Inr (m # ms, g)))"

text \<open>
  \<open>np.random.randint(0, high, n)\<close>: \<open>n\<close> integers from 0 to \<open>high - 1\<close>, ValueError
  when the interval is empty.
\<close>

fun np_random_draws :: "nat \<Rightarrow> nat \<Rightarrow> rng \<Rightarrow> nat list \<times> rng" where
  "np_random_draws 0 n g = ([], g)"
| "np_random_draws (Suc k) n g =
     (let (xs, g') = np_random_draws k n (\<lambda>i. g (Suc i)) in (g 0 mod n # xs, g'))"

definition np_random_randint :: "nat \<Rightarrow> nat \<Rightarrow> rng \<Rightarrow> error + nat list \<times> rng" where
  "np_random_randint high n g =
     (if high = 0 then Inl ValueError else Inr (np_random_draws n high g))"

text \<open>
  \<open>ACGAN.__init__\<close>. The discriminator is compiled while trainable, then
  \<open>discriminator.trainable = False\<close> (line 49), then the combined model is compiled.
  \<open>mnist\<close> is what \<open>mnist.load_data()\<close> returns; the test set is masked once.
\<close>

definition ACGAN_init ::
  "'gw \<Rightarrow> 'dw \<Rightarrow> (image list \<times> nat list) \<times> (image list \<times> nat list) \<Rightarrow> rng \<Rightarrow> rng
   \<Rightarrow> error + ('gw, 'dw) acgan" where
  "ACGAN_init gw dw mnist py np =
     (let discriminator_trainable = True;
          discriminator_compiled = discriminator_trainable;
          discriminator_trainable = False;
          combined_compiled = discriminator_trainable;
          ((X_train, y_train), (X_test, y_test)) = mnist
      in ebind (mask_all X_test py) (\<lambda>(X_test_masked, py).
         Inr \<lparr>generator = gw, discriminator = dw,
              discriminator_trainable = discriminator_trainable,
              discriminator_compiled = discriminator_compiled,
              combined_compiled = combined_compiled,
              X_train = X_train, y_train = y_train, X_test = X_test, y_test = y_test,
              X_test_masked = X_test_masked,
              accuracy_scores = [], recall_scores = [],
              py_random = py, np_random = np, calls = []\<rparr>))"

text \<open>
  \<open>test_masked_accuracy\<close> (lines 198 to 235). \<open>predicted_labels == self.y_test\<close>
  compares two arrays of the same length element by element.
\<close>

definition test_masked_accuracy ::
  "('gw, 'dw) keras \<Rightarrow> nat \<Rightarrow> ('gw, 'dw) acgan \<Rightarrow> error + ('gw, 'dw) acgan" where
  "test_masked_accuracy K epoch s =
     (let classifications = snd (discriminator_predict K (discriminator s) (X_test_masked s));
          s = called (DiscriminatorPredict (X_test_masked s)) s
      in ebind (argmax_axis1 classifications) (\<lambda>predicted_labels.
         let accuracy = true_divide (np_sum (map2 (=) predicted_labels (y_test s)))
                          (length (y_test s));
             s = s\<lparr>accuracy_scores := accuracy_scores s @ [(accuracy, epoch)]\<rparr>;
             s = called (SaveFig ''images/accuracy.png'') s
         in ebind (recalls_loop classifications (y_test s) [0..<10] []) (\<lambda>recalls.
            let s = s\<lparr>recall_scores := recall_scores s @ [(recalls, epoch)]\<rparr>
            in Inr (called (SaveFig ''images/recall.png'') s))))"

text \<open>
  \<open>sample_images\<close> (lines 242 to 261): the first 100 test images are masked again,
  and \<open>gen_imgs[cnt]\<close> is read for \<open>cnt\<close> up to 99.
\<close>

definition sample_images ::
  "('gw, 'dw) keras \<Rightarrow> nat \<Rightarrow> ('gw, 'dw) acgan \<Rightarrow> error + ('gw, 'dw) acgan" where
  "sample_images K epoch s =
     ebind (mask_all (take (10 * 10) (X_test s)) (py_random s)) (\<lambda>(masked_imgs, py).
       let s = s\<lparr>py_random := py\<rparr>;
           gen_imgs = generator_predict K (generator s) masked_imgs;
           s = called (GeneratorPredict masked_imgs) s
       in if length gen_imgs < 10 * 10 then Inl IndexError
          else Inr (called (SaveSamples epoch) s))"

text \<open>
  \<open>save_model\<close> writes the generator, then the discriminator.
\<close>

definition save_model :: "('gw, 'dw) acgan \<Rightarrow> ('gw, 'dw) acgan" where
  "save_model s = called (SaveModel ''discriminator'') (called (SaveModel ''generator'') s)"

text \<open>
  \<open>0.5 * np.add(a, b)\<close> on two lists of losses, \<open>xs[i]\<close> on a list, and
  \<open>(X.astype(np.float32) - 127.5) / 127.5\<close> on one image.
\<close>

definition add_halved :: "real list \<Rightarrow> real list \<Rightarrow> error + real list" where
  "add_halved a b =
     (if length a = length b then Inr (map (\<lambda>x. 0.5 * x) (map2 (+) a b)) else Inl ValueError)"

definition getitem :: "'a list \<Rightarrow> nat \<Rightarrow> error + 'a" where
  "getitem xs i = (if i < length xs then Inr (xs ! i) else Inl IndexError)"

definition scale_pixels :: "image \<Rightarrow> image" where
  "scale_pixels a = a\<lparr>data := map (\<lambda>x. (x - 127.5) / 127.5) (data a)\<rparr>"

text \<open>
  The body of the loop of \<open>train\<close> from the batch to the progress line (lines 162
  to 190).
\<close>

definition train_step ::
  "('gw, 'dw) keras \<Rightarrow> nat \<Rightarrow> image list \<Rightarrow> nat list \<Rightarrow> real list \<Rightarrow> real list
   \<Rightarrow> nat \<Rightarrow> ('gw, 'dw) acgan \<Rightarrow> error + ('gw, 'dw) acgan" where
  "train_step K batch_size X y valid fake epoch s =
     ebind (np_random_randint (length X) batch_size (np_random s)) (\<lambda>(idx, np).
     let s = called (NpRandomRandint 0 (int (length X)) batch_size) (s\<lparr>np_random := np\<rparr>)
     in ebind (take_rows X idx) (\<lambda>imgs.
        ebind (mask_all imgs (py_random s)) (\<lambda>(masked_imgs, py).
        let s = s\<lparr>py_random := py\<rparr>;
            gen_imgs = generator_predict K (generator s) masked_imgs;
            s = called (GeneratorPredict masked_imgs) s
        in ebind (take_rows y idx) (\<lambda>img_labels.
           let (d_loss_real, dw) = discriminator_train_on_batch K (discriminator_compiled s)
                                     (discriminator s) imgs valid img_labels;
               s = called (DiscriminatorTrainOnBatch (discriminator_compiled s) imgs valid img_labels)
                     (s\<lparr>discriminator := dw\<rparr>);
               (d_loss_fake, dw) = discriminator_train_on_batch K (discriminator_compiled s)
                                     (discriminator s) gen_imgs fake img_labels;
               s = called (DiscriminatorTrainOnBatch (discriminator_compiled s) gen_imgs fake img_labels)
                     (s\<lparr>discriminator := dw\<rparr>)
           in ebind (add_halved d_loss_real d_loss_fake) (\<lambda>d_loss.
              let (g_loss, gw, dw) = combined_train_on_batch K (combined_compiled s)
                                       (generator s) (discriminator s) masked_imgs valid img_labels;
                  s = called (CombinedTrainOnBatch (combined_compiled s) masked_imgs valid img_labels)
                        (s\<lparr>generator := gw, discriminator := dw\<rparr>)
              in ebind (getitem d_loss 0) (\<lambda>d0.
                 ebind (getitem d_loss 3) (\<lambda>d3.
                 ebind (getitem d_loss 4) (\<lambda>d4.
                 ebind (getitem g_loss 0) (\<lambda>g0.
                 Inr (called (Print epoch d0 (100 * d3) (100 * d4) g0) s))))))))))"

text \<open>
  The end of the body (lines 192 to 196): \<open>epoch % sample_interval\<close> raises
  ZeroDivisionError when \<open>sample_interval\<close> is 0.
\<close>

definition at_save_interval ::
  "('gw, 'dw) keras \<Rightarrow> int \<Rightarrow> nat \<Rightarrow> ('gw, 'dw) acgan \<Rightarrow> error + ('gw, 'dw) acgan" where
  "at_save_interval K sample_interval epoch s =
     (if sample_interval = 0 then Inl ZeroDivisionError
      else if int epoch mod sample_interval = 0
      then ebind (sample_images K epoch (save_model s)) (test_masked_accuracy K epoch)
      else Inr s)"

definition train_epoch ::
  "('gw, 'dw) keras \<Rightarrow> nat \<Rightarrow> int \<Rightarrow> image list \<Rightarrow> nat list \<Rightarrow> real list \<Rightarrow> real list
   \<Rightarrow> nat \<Rightarrow> ('gw, 'dw) acgan \<Rightarrow> error + ('gw, 'dw) acgan" where
  "train_epoch K batch_size sample_interval X y valid fake epoch s =
     ebind (train_step K batch_size X y valid fake epoch s)
       (at_save_interval K sample_interval epoch)"

text \<open>
  \<open>for epoch in range(epochs)\<close>, and \<open>train\<close> with what it prepares before the
  loop.
\<close>

fun train_loop ::
  "('gw, 'dw) keras \<Rightarrow> nat \<Rightarrow> int \<Rightarrow> image list \<Rightarrow> nat list \<Rightarrow> real list \<Rightarrow> real list
   \<Rightarrow> nat list \<Rightarrow> ('gw, 'dw) acgan \<Rightarrow> error + ('gw, 'dw) acgan" where
  "train_loop K batch_size sample_interval X y valid fake [] s = Inr s"
| "train_loop K batch_size sample_interval X y valid fake (epoch # epochs) s =
     ebind (train_epoch K batch_size sample_interval X y valid fake epoch s)
       (train_loop K batch_size sample_interval X y valid fake epochs)"

definition train ::
  "('gw, 'dw) keras \<Rightarrow> nat \<Rightarrow> nat \<Rightarrow> int \<Rightarrow> ('gw, 'dw) acgan \<Rightarrow> error + ('gw, 'dw) acgan" where
  "train K epochs batch_size sample_interval s =
     (let X = map (\<lambda>a. expand_dims_last (scale_pixels a)) (X_train s);
          y = y_train s;
          valid = replicate batch_size 1;
          fake = replicate batch_size 0
      in train_loop K batch_size sample_interval X y valid fake [0..<epochs] s)"

text \<open>
  The two heads of \<open>build_discriminator\<close> (lines 130 to 139), over the reals. A
  \<open>Dense\<close> layer with \<open>units\<close> outputs, weights \<open>w\<close> and biases \<open>b\<close>; the
  activations \<open>sigmoid\<close> and \<open>softmax\<close>.
\<close>

definition sigmoid :: "real \<Rightarrow> real" where
  "sigmoid x = 1 / (1 + exp (- x))"

definition softmax :: "real list \<Rightarrow> real list" where
  "softmax xs = map (\<lambda>x. exp x / sum_list (map exp xs)) xs"

definition dense_layer :: "nat \<Rightarrow> (nat \<Rightarrow> nat \<Rightarrow> real) \<Rightarrow> (nat \<Rightarrow> real) \<Rightarrow> real list \<Rightarrow> real list" where
  "dense_layer units w b x =
     map (\<lambda>j. sum_list (map (\<lambda>i. x ! i * w i j) [0..<length x]) + b j) [0..<units]"

text \<open>
  The weights of the discriminator: the convolutional stack up to \<open>Flatten\<close> is the
  function \<open>features_of\<close>, the two \<open>Dense\<close> heads have their kernels and
  biases. \<open>build_discriminator\<close> is the model returned: an image to the pair
  \<open>[validity, label]\<close>.
\<close>

record discriminator_weights =
  features_of :: "image \<Rightarrow> real list"
  validity_kernel :: "nat \<Rightarrow> nat \<Rightarrow> real"
  validity_bias :: "nat \<Rightarrow> real"
  label_kernel :: "nat \<Rightarrow> nat \<Rightarrow> real"
  label_bias :: "nat \<Rightarrow> real"

definition build_discriminator :: "discriminator_weights \<Rightarrow> image \<Rightarrow> real list \<times> real list" where
  "build_discriminator W img =
     (let features = features_of W img;
          validity = map sigmoid (dense_layer 1 (validity_kernel W) (validity_bias W) features);
          label = softmax (dense_layer num_classes (label_kernel W) (label_bias W) features)
      in (validity, label))"

section \<open>The visibility region, in the words of the specification\<close>

text \<open>
  A 28x28 array: shape \<open>(28, 28)\<close> and a buffer of 784 elements.
\<close>

definition grid28 :: "'a ndarray \<Rightarrow> bool" where
  "grid28 m = (shape m = [28, 28] \<and> length (data m) = 784)"

definition in_grid :: "position \<Rightarrow> bool" where
  "in_grid c = (0 \<le> fst c \<and> fst c < 28 \<and> 0 \<le> snd c \<and> snd c < 28)"

definition chebyshev :: "position \<Rightarrow> position \<Rightarrow> int" where
  "chebyshev p c = max \<bar>fst c - fst p\<bar> \<bar>snd c - snd p\<bar>"

text \<open>The positions of the agent after each step of a walk from \<open>p\<close>, the start excluded.\<close>

fun walk_positions :: "position \<Rightarrow> int list \<Rightarrow> position list" where
  "walk_positions p [] = []"
| "walk_positions p (s # ss) = move s p # walk_positions (move s p) ss"

text \<open>
  The cells of the grid within Chebyshev distance \<open>VISIBLE_RADIUS\<close> of one of the
  positions: the union of the clipped 11x11 squares around them.
\<close>

definition seen_from :: "position list \<Rightarrow> position \<Rightarrow> bool" where
  "seen_from ps c = (in_grid c \<and> (\<exists>p\<in>set ps. chebyshev p c \<le> VISIBLE_RADIUS))"

text \<open>What one call of \<open>mask\<close> draws from the generator \<open>g\<close>, and the region it walks.\<close>

definition start_position :: "rng \<Rightarrow> position" where
  "start_position g = fst (initial_draws g)"

definition walk_steps :: "rng \<Rightarrow> int list" where
  "walk_steps g = fst (snd (initial_draws g))"

definition rng_after :: "rng \<Rightarrow> rng" where
  "rng_after g = snd (snd (initial_draws g))"

definition agent_path :: "rng \<Rightarrow> position list" where
  "agent_path g = walk_positions (start_position g) (walk_steps g)"

definition visible :: "rng \<Rightarrow> position \<Rightarrow> bool" where
  "visible g c = seen_from (agent_path g) c"

text \<open>
  The four cardinal directions as (row, column) offsets: 0 decrements the row,
  1 increments the column, 2 increments the row, 3 decrements the column.
\<close>

definition direction :: "int \<Rightarrow> position" where
  "direction s = (if s = 0 then (- 1, 0) else if s = 1 then (0, 1)
                  else if s = 2 then (1, 0) else (0, - 1))"

text \<open>A tape for examples: the start is (7, 7) and every step increments the row.\<close>

definition all_down :: rng where
  "all_down = (\<lambda>n. if n < 2 then 0 else 2)"

section \<open>Accuracy and recall, in the words of the specification\<close>

text \<open>
  The predicted label of a row of class probabilities: the first index of its maximum.
\<close>

definition is_argmax :: "real list \<Rightarrow> nat \<Rightarrow> bool" where
  "is_argmax row p =
     (p < length row \<and> (\<forall>j\<in>set [0..<length row]. row ! j \<le> row ! p) \<and>
      (\<forall>j\<in>set [0..<p]. row ! j < row ! p))"

text \<open>
  The number of test images whose predicted label is the true one, divided by the
  number of labels; for a class, the number of its images predicted in the class,
  divided by the number of its images. The division is that of the reals; there is no
  quotient (numpy's \<open>nan\<close>) when the divisor is 0.
\<close>

definition masked_accuracy :: "nat list \<Rightarrow> nat list \<Rightarrow> npfloat" where
  "masked_accuracy predicted y =
     (if length y = 0 then NaN
      else Finite (real (length (filter (\<lambda>k. predicted ! k = y ! k) [0..<length y])) /
                   real (length y)))"

definition class_recall :: "nat list \<Rightarrow> nat list \<Rightarrow> nat \<Rightarrow> npfloat" where
  "class_recall predicted y i =
     (if length (filter (\<lambda>k. y ! k = i) [0..<length y]) = 0 then NaN
      else Finite (real (length (filter (\<lambda>k. y ! k = i \<and> predicted ! k = i) [0..<length y])) /
                   real (length (filter (\<lambda>k. y ! k = i) [0..<length y]))))"

text \<open>
  What the code relies on from Keras: \<open>predict\<close> returns one output per input (and
  one row of \<open>num_classes\<close> probabilities per image), the discriminator returns 5
  losses and metrics and the combined model 3, and a model compiled while the
  discriminator was not trainable leaves the weights of the discriminator alone.
\<close>

definition keras_ok :: "('gw, 'dw) keras \<Rightarrow> bool" where
  "keras_ok K =
     ((\<forall>gw xs. length (generator_predict K gw xs) = length xs) \<and>
      (\<forall>dw xs. length (snd (discriminator_predict K dw xs)) = length xs \<and>
               (\<forall>row\<in>set (snd (discriminator_predict K dw xs)). length row = num_classes)) \<and>
      (\<forall>t dw x v l. length (fst (discriminator_train_on_batch K t dw x v l)) = 5) \<and>
      (\<forall>t gw dw x v l. length (fst (combined_train_on_batch K t gw dw x v l)) = 3) \<and>
      (\<forall>gw dw x v l. snd (snd (combined_train_on_batch K False gw dw x v l)) = dw))"

text \<open>
  What the code relies on from the data set: 28x28 images, a label for each, a training
  set that is not empty and at least 100 test images.
\<close>

definition mnist_ok :: "(image list \<times> nat list) \<times> (image list \<times> nat list) \<Rightarrow> bool" where
  "mnist_ok mnist =
     (case mnist of ((Xtr, ytr), (Xte, yte)) \<Rightarrow>
        (\<forall>a\<in>set Xtr. grid28 a) \<and> length ytr = length Xtr \<and> 0 < length Xtr \<and>
        (\<forall>a\<in>set Xte. grid28 a) \<and> length yte = length Xte \<and> 100 \<le> length Xte)"

text \<open>
  A state as \<open>ACGAN_init\<close> leaves it and \<open>train\<close> keeps it, and what \<open>train\<close>
  never changes.
\<close>

definition ready :: "('gw, 'dw) acgan \<Rightarrow> bool" where
  "ready s =
     (discriminator_compiled s \<and> \<not> combined_compiled s \<and>
      (\<forall>a\<in>set (X_train s). grid28 a) \<and> length (y_train s) = length (X_train s) \<and>
      0 < length (X_train s) \<and>
      (\<forall>a\<in>set (X_test s). grid28 a) \<and> length (y_test s) = length (X_test s) \<and>
      100 \<le> length (X_test s) \<and> length (X_test_masked s) = length (X_test s))"

definition same_setup :: "('gw, 'dw) acgan \<Rightarrow> ('gw, 'dw) acgan \<Rightarrow> bool" where
  "same_setup s s' =
     (discriminator_compiled s' = discriminator_compiled s \<and>
      combined_compiled s' = combined_compiled s \<and>
      X_train s' = X_train s \<and> y_train s' = y_train s \<and>
      X_test s' = X_test s \<and> y_test s' = y_test s \<and>
      X_test_masked s' = X_test_masked s)"

text \<open>
  Examples: networks that return constants, a black image, a data set of one training
  image and 100 test images of class 0, and a discriminator with all weights 0.
\<close>

definition stub_keras :: "(unit, unit) keras" where
  "stub_keras =
     \<lparr>generator_predict = (\<lambda>gw xs. xs),
      discriminator_predict = (\<lambda>dw xs. (map (\<lambda>x. [1 / 2]) xs, map (\<lambda>x. replicate 10 (1 / 10)) xs)),
      discriminator_train_on_batch = (\<lambda>t dw x v l. (replicate 5 0, dw)),
      combined_train_on_batch = (\<lambda>t gw dw x v l. (replicate 3 0, gw, dw))\<rparr>"

definition blank :: image where
  "blank = \<lparr>shape = [28, 28], data = replicate 784 0\<rparr>"

definition toy_mnist :: "(image list \<times> nat list) \<times> (image list \<times> nat list)" where
  "toy_mnist = (([blank], [0]), (replicate 100 blank, replicate 100 0))"

text \<open>
  A data set whose 100 test images are 50 of class 0 followed by 50 of class 1.
\<close>

definition half_mnist :: "(image list \<times> nat list) \<times> (image list \<times> nat list)" where
  "half_mnist = (([blank], [0]), (replicate 100 blank, replicate 50 0 @ replicate 50 1))"

definition zero_weights :: discriminator_weights where
  "zero_weights = \<lparr>features_of = (\<lambda>img. []), validity_kernel = (\<lambda>i j. 0), validity_bias = (\<lambda>j. 0),
                   label_kernel = (\<lambda>i j. 0), label_bias = (\<lambda>j. 0)\<rparr>"

section \<open>The generator\<close>

lemma randint_range: "a \<le> b \<Longrightarrow> a \<le> fst (randint a b g) \<and> fst (randint a b g) \<le> b"
proof -
  assume ab: "a \<le> b"
  then have pos: "0 < nat (b - a + 1)" by simp
  have "g 0 mod nat (b - a + 1) < nat (b - a + 1)"
    using pos by (rule mod_less_divisor)
  then have "int (g 0 mod nat (b - a + 1)) < b - a + 1"
    using ab by linarith
  then show ?thesis by (simp add: randint_def)
qed

lemma randints_length: "length (fst (randints n a b g)) = n"
  by (induction n arbitrary: g) (simp_all add: split_beta)

lemma randints_range: "a \<le> b \<Longrightarrow> x \<in> set (fst (randints n a b g)) \<Longrightarrow> a \<le> x \<and> x \<le> b"
proof (induction n arbitrary: g)
  case 0
  then show ?case by simp
next
  case (Suc n)
  from Suc.prems(2) have "x = fst (randint a b g) \<or> x \<in> set (fst (randints n a b (snd (randint a b g))))"
    by (simp add: split_beta)
  then show ?case
    using randint_range[OF Suc.prems(1), of g] Suc.IH[OF Suc.prems(1)] by blast
qed

section \<open>Marking the window\<close>

lemma cell_index_inj:
  assumes "j < 28" "y < 28"
  shows "(i * 28 + j = x * 28 + y) = (i = x \<and> j = (y::nat))"
proof
  assume e: "i * 28 + j = x * 28 + y"
  have "(i * 28 + j) div 28 = i" "(x * 28 + y) div 28 = x" using assms by simp_all
  with e have ix: "i = x" by simp
  with e show "i = x \<and> j = y" by simp
qed simp

lemma setitem2_grid28: "grid28 m \<Longrightarrow> grid28 (setitem2 m x y v)"
  by (simp add: grid28_def setitem2_def)

lemma item2_setitem2:
  assumes "grid28 m" "i < 28" "j < 28" "x < 28" "y < 28"
  shows "item2 (setitem2 m x y v) i j = (if i = x \<and> j = y then v else item2 m i j)"
proof -
  have len: "x * 28 + y < length (data m)" using assms by (simp add: grid28_def)
  have sh: "shape m = [28, 28]" using assms by (simp add: grid28_def)
  have "item2 (setitem2 m x y v) i j = (data m)[x * 28 + y := v] ! (i * 28 + j)"
    by (simp add: item2_def setitem2_def sh)
  also have "\<dots> = (if x * 28 + y = i * 28 + j then v else data m ! (i * 28 + j))"
    using len by (simp only: nth_list_update)
  also have "\<dots> = (if i = x \<and> j = y then v else item2 m i j)"
    using cell_index_inj[OF assms(5,3), of x i] by (simp add: item2_def sh eq_commute)
  finally show ?thesis .
qed

lemma mark_row_grid28: "grid28 m \<Longrightarrow> grid28 (mark_row x ys m)"
  unfolding mark_row_def
  by (induction ys arbitrary: m) (simp_all add: setitem2_grid28)

lemma item2_mark_row:
  "grid28 m \<Longrightarrow> i < 28 \<Longrightarrow> j < 28 \<Longrightarrow>
   item2 (mark_row x ys m) i j = (if int i = x \<and> int j \<in> set ys then 1 else item2 m i j)"
proof (induction ys arbitrary: m)
  case Nil
  then show ?case by (simp add: mark_row_def)
next
  case (Cons y ys)
  show ?case
  proof (cases "0 \<le> x \<and> x < 28 \<and> 0 \<le> y \<and> y < 28")
    case True
    then have n: "nat x < 28" "nat y < 28" by auto
    let ?m = "setitem2 m (nat x) (nat y) 1"
    have g: "grid28 ?m" using Cons.prems(1) by (rule setitem2_grid28)
    have "mark_row x (y # ys) m = mark_row x ys ?m"
      using True by (simp add: mark_row_def)
    then have "item2 (mark_row x (y # ys) m) i j = item2 (mark_row x ys ?m) i j"
      by simp
    also have "\<dots> = (if int i = x \<and> int j \<in> set ys then 1 else item2 ?m i j)"
      using Cons.IH[OF g Cons.prems(2,3)] .
    also have "item2 ?m i j = (if i = nat x \<and> j = nat y then 1 else item2 m i j)"
      using item2_setitem2[OF Cons.prems(1) Cons.prems(2,3) n] .
    finally show ?thesis using True by auto
  next
    case False
    then have "mark_row x (y # ys) m = mark_row x ys m"
      by (auto simp add: mark_row_def)
    moreover have "\<not> (int i = x \<and> int j = y)" using False Cons.prems by auto
    ultimately show ?thesis using Cons.IH[OF Cons.prems] by auto
  qed
qed

lemma update_mask_grid28: "grid28 m \<Longrightarrow> grid28 (update_mask p m)"
proof -
  have "grid28 m \<Longrightarrow> grid28 (fold (\<lambda>x m. mark_row x ys m) xs m)" for xs ys
    by (induction xs arbitrary: m) (simp_all add: mark_row_grid28)
  then show "grid28 m \<Longrightarrow> grid28 (update_mask p m)"
    unfolding update_mask_def by blast
qed

lemma item2_fold_mark_row:
  "grid28 m \<Longrightarrow> i < 28 \<Longrightarrow> j < 28 \<Longrightarrow>
   item2 (fold (\<lambda>x m. mark_row x ys m) xs m) i j =
     (if int i \<in> set xs \<and> int j \<in> set ys then 1 else item2 m i j)"
proof (induction xs arbitrary: m)
  case Nil
  then show ?case by simp
next
  case (Cons x xs)
  have g: "grid28 (mark_row x ys m)" using Cons.prems(1) by (rule mark_row_grid28)
  have "item2 (fold (\<lambda>x m. mark_row x ys m) (x # xs) m) i j =
        item2 (fold (\<lambda>x m. mark_row x ys m) xs (mark_row x ys m)) i j"
    by simp
  also have "\<dots> = (if int i \<in> set xs \<and> int j \<in> set ys then 1 else item2 (mark_row x ys m) i j)"
    using Cons.IH[OF g Cons.prems(2,3)] .
  also have "item2 (mark_row x ys m) i j = (if int i = x \<and> int j \<in> set ys then 1 else item2 m i j)"
    using item2_mark_row[OF Cons.prems] .
  finally show ?case by auto
qed

lemma set_py_range: "set (py_range a b) = {a..<b}"
  by (auto simp: py_range_def)

section \<open>The walk\<close>

lemma item2_update_mask:
  assumes "grid28 m" "i < 28" "j < 28"
  shows "item2 (update_mask p m) i j =
     (if chebyshev p (int i, int j) \<le> VISIBLE_RADIUS then 1 else item2 m i j)"
proof -
  have "(int i \<in> set (py_range (fst p - VISIBLE_RADIUS) (fst p + VISIBLE_RADIUS + 1)) \<and>
         int j \<in> set (py_range (snd p - VISIBLE_RADIUS) (snd p + VISIBLE_RADIUS + 1)))
        = (chebyshev p (int i, int j) \<le> VISIBLE_RADIUS)"
    by (auto simp: set_py_range chebyshev_def)
  then show ?thesis
    unfolding update_mask_def
    by (simp only: item2_fold_mark_row[OF assms])
qed

lemma walk_from:
  "grid28 m \<Longrightarrow>
   \<exists>m'. walk (pre @ ss) [length pre..<length pre + length ss] (p, m)
          = Inr (last (p # walk_positions p ss), m') \<and>
        grid28 m' \<and>
        (\<forall>i<28. \<forall>j<28. item2 m' i j =
           (if \<exists>q\<in>set (walk_positions p ss). chebyshev q (int i, int j) \<le> VISIBLE_RADIUS
            then 1 else item2 m i j))"
proof (induction ss arbitrary: pre p m)
  case Nil
  then show ?case by simp
next
  case (Cons s ss)
  let ?p = "move s p"
  let ?m = "update_mask ?p m"
  have g: "grid28 ?m" using Cons.prems by (rule update_mask_grid28)
  have idx: "[length pre..<length pre + length (s # ss)] =
             length pre # [length (pre @ [s])..<length (pre @ [s]) + length ss]"
    by (rule trans[OF upt_conv_Cons]) simp_all
  have unfold1: "walk (pre @ s # ss) [length pre..<length pre + length (s # ss)] (p, m) =
        walk ((pre @ [s]) @ ss) [length (pre @ [s])..<length (pre @ [s]) + length ss] (?p, ?m)"
    by (simp only: idx) (simp add: Let_def)
  from Cons.IH[OF g, of "pre @ [s]" ?p] obtain m' where
    w: "walk ((pre @ [s]) @ ss) [length (pre @ [s])..<length (pre @ [s]) + length ss] (?p, ?m)
          = Inr (last (?p # walk_positions ?p ss), m')" and
    g': "grid28 m'" and
    c: "\<forall>i<28. \<forall>j<28. item2 m' i j =
           (if \<exists>q\<in>set (walk_positions ?p ss). chebyshev q (int i, int j) \<le> VISIBLE_RADIUS
            then 1 else item2 ?m i j)"
    by blast
  have "walk (pre @ s # ss) [length pre..<length pre + length (s # ss)] (p, m)
          = Inr (last (p # walk_positions p (s # ss)), m')"
    using unfold1 w by simp
  moreover have "\<forall>i<28. \<forall>j<28. item2 m' i j =
           (if \<exists>q\<in>set (walk_positions p (s # ss)). chebyshev q (int i, int j) \<le> VISIBLE_RADIUS
            then 1 else item2 m i j)"
  proof (intro allI impI)
    fix i j :: nat
    assume ij: "i < 28" "j < 28"
    show "item2 m' i j =
           (if \<exists>q\<in>set (walk_positions p (s # ss)). chebyshev q (int i, int j) \<le> VISIBLE_RADIUS
            then 1 else item2 m i j)"
      using c ij item2_update_mask[OF Cons.prems ij, of ?p] by auto
  qed
  ultimately show ?case using g' by blast
qed

lemma zeros_grid28: "grid28 (zeros [28, 28])"
  by (simp add: grid28_def zeros_def)

lemma item2_zeros: "i < 28 \<Longrightarrow> j < 28 \<Longrightarrow> item2 (zeros [28, 28]) i j = 0"
  by (simp add: item2_def zeros_def)

section \<open>The mask\<close>

lemma grid28_iff: "grid28 a = (shape a = [28, 28] \<and> wf_ndarray a)"
  by (auto simp: grid28_def wf_ndarray_def)

lemma walk_steps_length: "length (walk_steps g) = RANDOM_WALK_LENGTH"
  by (simp add: walk_steps_def initial_draws_def split_beta randints_length)

lemma walk_steps_range: "s \<in> set (walk_steps g) \<Longrightarrow> 0 \<le> s \<and> s \<le> 3"
  unfolding walk_steps_def initial_draws_def
  by (simp add: split_beta) (rule randints_range, simp_all)

lemma start_position_range:
  "7 \<le> fst (start_position g) \<and> fst (start_position g) \<le> 20 \<and>
   7 \<le> snd (start_position g) \<and> snd (start_position g) \<le> 20"
  using randint_range[of 7 20 g] randint_range[of 7 20 "snd (randint 7 20 g)"]
  by (simp add: start_position_def initial_draws_def split_beta)

lemma initial_draws_eq: "initial_draws g = (start_position g, walk_steps g, rng_after g)"
  by (simp add: start_position_def walk_steps_def rng_after_def)

lemma in_grid_nat: "i < 28 \<Longrightarrow> j < 28 \<Longrightarrow> in_grid (int i, int j)"
  by (simp add: in_grid_def)

lemma random_walk_result:
  "\<exists>m. random_walk g = Inr ((last (start_position g # agent_path g), m), rng_after g) \<and>
       grid28 m \<and>
       (\<forall>i<28. \<forall>j<28. item2 m i j = (if visible g (int i, int j) then 1 else (0::'a::{zero,one})))"
proof -
  have len: "RANDOM_WALK_LENGTH = length (walk_steps g)"
    by (simp add: walk_steps_length)
  from walk_from[OF zeros_grid28, of "[]" "walk_steps g" "start_position g"]
  obtain m :: "'a ndarray" where
    w: "walk (walk_steps g) [0..<length (walk_steps g)] (start_position g, zeros [28, 28])
          = Inr (last (start_position g # agent_path g), m)" and
    g: "grid28 m" and
    c: "\<forall>i<28. \<forall>j<28. item2 m i j =
           (if \<exists>q\<in>set (agent_path g). chebyshev q (int i, int j) \<le> VISIBLE_RADIUS
            then 1 else item2 (zeros [28, 28]) i j)"
    unfolding agent_path_def by auto
  have "random_walk g = Inr ((last (start_position g # agent_path g), m), rng_after g)"
    unfolding random_walk_def initial_draws_eq len using w by simp
  moreover have "\<forall>i<28. \<forall>j<28. item2 m i j = (if visible g (int i, int j) then 1 else 0)"
    using c by (simp add: visible_def seen_from_def in_grid_nat item2_zeros)
  ultimately show ?thesis using g by blast
qed

lemma multiply_grid28: "grid28 a \<Longrightarrow> grid28 b \<Longrightarrow> grid28 (multiply a b)"
  by (simp add: grid28_def multiply_def)

lemma item2_multiply:
  "grid28 a \<Longrightarrow> grid28 b \<Longrightarrow> i < 28 \<Longrightarrow> j < 28 \<Longrightarrow>
   item2 (multiply a b) i j = item2 a i j * item2 b i j"
proof -
  assume a: "grid28 a" and b: "grid28 b" and ij: "i < 28" "j < 28"
  have "i * 28 + j < 784" using ij by simp
  then show ?thesis using a b
    by (simp add: grid28_def multiply_def item2_def)
qed

lemma mask_grid28:
  assumes "grid28 img"
  shows "\<exists>m p. random_walk g = Inr ((p, m), rng_after g) \<and>
           mask img w r g = Inr (multiply img m, rng_after g) \<and> grid28 m \<and>
           (\<forall>i<28. \<forall>j<28. item2 m i j = (if visible g (int i, int j) then 1 else 0))"
proof -
  from random_walk_result[of g] obtain m :: "'a ndarray" where
    rw: "random_walk g = Inr ((last (start_position g # agent_path g), m), rng_after g)" and
    g: "grid28 m" and
    c: "\<forall>i<28. \<forall>j<28. item2 m i j = (if visible g (int i, int j) then 1 else 0)"
    by blast
  have sh: "shape img = [28, 28]" using assms by (simp add: grid28_def)
  have "mask img w r g = Inr (multiply img m, rng_after g)"
    unfolding mask_def by (simp add: sh rw)
  then show ?thesis using rw g c by blast
qed

text \<open>
  C1: for a 28x28 image and any generator, \<open>mask\<close> returns a 28x28 array in which
  each pixel is either the input pixel or zero: the pixel is the input pixel times the
  mask cell, the mask cell is 1 exactly on the visibility region (the clipped squares
  around the walk positions) and 0 exactly outside it, so a pixel inside the region
  keeps its value and a pixel outside is zero. Where the input pixel is not zero, the
  pixel keeps its value exactly when it is inside and is zero exactly when it is
  outside; where the input pixel is zero, it is both kept and zero, inside or outside.
\<close>

theorem mask_keeps_visible:
  fixes img :: "'a::semiring_1 ndarray"
  assumes "shape img = [28, 28]" and "wf_ndarray img"
  shows "\<exists>out m p g'.
           random_walk g = Inr ((p, m), g') \<and>
           mask img w r g = Inr (out, g') \<and>
           shape out = [28, 28] \<and> wf_ndarray out \<and>
           (\<forall>x<28. \<forall>y<28.
              item2 out x y = item2 img x y * item2 m x y \<and>
              (item2 m x y = 1) = visible g (int x, int y) \<and>
              (item2 m x y = 0) = (\<not> visible g (int x, int y)) \<and>
              item2 out x y = (if visible g (int x, int y) then item2 img x y else 0) \<and>
              (item2 out x y = item2 img x y \<or> item2 out x y = 0) \<and>
              (item2 img x y \<noteq> 0 \<longrightarrow>
                 (item2 out x y = item2 img x y) = visible g (int x, int y) \<and>
                 (item2 out x y = 0) = (\<not> visible g (int x, int y))) \<and>
              (item2 img x y = 0 \<longrightarrow> item2 out x y = item2 img x y \<and> item2 out x y = 0))"
proof -
  have gi: "grid28 img" using assms by (simp add: grid28_iff)
  from mask_grid28[OF gi, of g w r] obtain m p where
    rw: "random_walk g = Inr ((p, m), rng_after g)" and
    mk: "mask img w r g = Inr (multiply img m, rng_after g)" and
    gm: "grid28 m" and
    c: "\<forall>i<28. \<forall>j<28. item2 m i j = (if visible g (int i, int j) then 1 else 0)"
    by blast
  have go: "grid28 (multiply img m)" using gi gm by (rule multiply_grid28)
  have px: "\<forall>x<28. \<forall>y<28.
              item2 (multiply img m) x y = item2 img x y * item2 m x y \<and>
              (item2 m x y = 1) = visible g (int x, int y) \<and>
              (item2 m x y = 0) = (\<not> visible g (int x, int y)) \<and>
              item2 (multiply img m) x y = (if visible g (int x, int y) then item2 img x y else 0) \<and>
              (item2 (multiply img m) x y = item2 img x y \<or> item2 (multiply img m) x y = 0) \<and>
              (item2 img x y \<noteq> 0 \<longrightarrow>
                 (item2 (multiply img m) x y = item2 img x y) = visible g (int x, int y) \<and>
                 (item2 (multiply img m) x y = 0) = (\<not> visible g (int x, int y))) \<and>
              (item2 img x y = 0 \<longrightarrow>
                 item2 (multiply img m) x y = item2 img x y \<and> item2 (multiply img m) x y = 0)"
  proof (intro allI impI)
    fix x y :: nat
    assume xy: "x < 28" "y < 28"
    have m: "item2 m x y = (if visible g (int x, int y) then 1 else 0)" using c xy by blast
    have o: "item2 (multiply img m) x y = item2 img x y * item2 m x y"
      using gi gm xy by (rule item2_multiply)
    show "item2 (multiply img m) x y = item2 img x y * item2 m x y \<and>
              (item2 m x y = 1) = visible g (int x, int y) \<and>
              (item2 m x y = 0) = (\<not> visible g (int x, int y)) \<and>
              item2 (multiply img m) x y = (if visible g (int x, int y) then item2 img x y else 0) \<and>
              (item2 (multiply img m) x y = item2 img x y \<or> item2 (multiply img m) x y = 0) \<and>
              (item2 img x y \<noteq> 0 \<longrightarrow>
                 (item2 (multiply img m) x y = item2 img x y) = visible g (int x, int y) \<and>
                 (item2 (multiply img m) x y = 0) = (\<not> visible g (int x, int y))) \<and>
              (item2 img x y = 0 \<longrightarrow>
                 item2 (multiply img m) x y = item2 img x y \<and> item2 (multiply img m) x y = 0)"
      by (auto simp: o m)
  qed
  show ?thesis
    using rw mk go px unfolding grid28_iff by blast
qed

theorem mask_keeps_visible_witness:
  "shape \<lparr>shape = [28, 28], data = replicate 784 (1::int)\<rparr> = [28, 28] \<and>
   wf_ndarray \<lparr>shape = [28, 28], data = replicate 784 (1::int)\<rparr> \<and>
   item2 \<lparr>shape = [28, 28], data = replicate 784 (1::int)\<rparr> 0 2 \<noteq> 0 \<and>
   visible (\<lambda>n. 0) (0, 2) \<and> \<not> visible (\<lambda>n. 0) (0, 0) \<and>
   (\<exists>out g'. mask \<lparr>shape = [28, 28], data = replicate 784 (1::int)\<rparr> 40 5 (\<lambda>n. 0) = Inr (out, g') \<and>
      item2 out 0 2 = 1 \<and> item2 out 0 0 = 0)"
proof -
  let ?img = "\<lparr>shape = [28, 28], data = replicate 784 (1::int)\<rparr>"
  have s: "shape ?img = [28, 28]" by simp
  have w: "wf_ndarray ?img" by (simp add: wf_ndarray_def)
  have p: "item2 ?img 0 2 = 1" by (simp add: item2_def)
  have v1: "visible (\<lambda>n. 0) (int 0, int 2)" by code_simp
  have v2: "\<not> visible (\<lambda>n. 0) (int 0, int 0)" by code_simp
  from mask_keeps_visible[OF s w, of "\<lambda>n. 0" 40 5] obtain out m p g' where
    all: "random_walk (\<lambda>n. 0) = Inr ((p, m), g') \<and>
           mask ?img 40 5 (\<lambda>n. 0) = Inr (out, g') \<and>
           shape out = [28, 28] \<and> wf_ndarray out \<and>
           (\<forall>x<28. \<forall>y<28.
              item2 out x y = item2 ?img x y * item2 m x y \<and>
              (item2 m x y = 1) = visible (\<lambda>n. 0) (int x, int y) \<and>
              (item2 m x y = 0) = (\<not> visible (\<lambda>n. 0) (int x, int y)) \<and>
              item2 out x y = (if visible (\<lambda>n. 0) (int x, int y) then item2 ?img x y else 0) \<and>
              (item2 out x y = item2 ?img x y \<or> item2 out x y = 0) \<and>
              (item2 ?img x y \<noteq> 0 \<longrightarrow>
                 (item2 out x y = item2 ?img x y) = visible (\<lambda>n. 0) (int x, int y) \<and>
                 (item2 out x y = 0) = (\<not> visible (\<lambda>n. 0) (int x, int y))) \<and>
              (item2 ?img x y = 0 \<longrightarrow> item2 out x y = item2 ?img x y \<and> item2 out x y = 0))"
    by (elim exE) (rule that)
  have mk: "mask ?img 40 5 (\<lambda>n. 0) = Inr (out, g')" using all by blast
  have px: "\<forall>x<28. \<forall>y<28.
              item2 out x y = (if visible (\<lambda>n. 0) (int x, int y) then item2 ?img x y else 0)"
    using all by blast
  have "item2 out 0 2 = item2 ?img 0 2" using px v1 by auto
  moreover have "item2 out 0 0 = 0" using px v2 by auto
  ultimately show ?thesis using s w mk p v1 v2 by auto
qed

text \<open>
  As an equivalence on every pixel the statement fails. On the black image, with the
  walk that starts at (7, 7) and goes down, the pixel at (0, 0) is outside the region
  and keeps its value, and the pixel at (8, 7) is inside and is zero.
\<close>

theorem mask_keeps_visible_counterexample:
  "\<not> isl (mask blank 40 5 all_down) \<and>
   ((item2 (fst (projr (mask blank 40 5 all_down))) 0 0 = item2 blank 0 0)
      \<noteq> visible all_down (0, 0)) \<and>
   ((item2 (fst (projr (mask blank 40 5 all_down))) 8 7 = 0)
      \<noteq> (\<not> visible all_down (8, 7)))"
proof -
  have gb: "grid28 blank" by (simp add: grid28_def blank_def)
  from mask_grid28[OF gb, of all_down 40 5] obtain m :: "real ndarray" where
    mk: "mask blank 40 5 all_down = Inr (multiply blank m, rng_after all_down)" and
    gm: "grid28 m"
    by blast
  have z: "item2 blank 0 0 = 0" "item2 blank 8 7 = 0" by (simp_all add: item2_def blank_def)
  have o1: "item2 (multiply blank m) 0 0 = item2 blank 0 0 * item2 m 0 0"
    using gb gm by (rule item2_multiply) simp_all
  have o2: "item2 (multiply blank m) 8 7 = item2 blank 8 7 * item2 m 8 7"
    using gb gm by (rule item2_multiply) simp_all
  have v1: "\<not> visible all_down (0, 0)" by code_simp
  have v2: "visible all_down (8, 7)" by code_simp
  show ?thesis
    using v1 v2 by (simp add: mk o1 o2 z)
qed

text \<open>
  C8: the parameters \<open>walk_length\<close> and \<open>visible_radius\<close> are never read: whatever
  values are passed, the result is that of the call with the defaults, for the same
  generator.
\<close>

theorem mask_ignores_parameters: "mask img w r g = mask_default img g"
  by (simp add: mask_def mask_default_def)

section \<open>The structure of the walk\<close>

lemma move_direction:
  "0 \<le> s \<Longrightarrow> s \<le> 3 \<Longrightarrow> move s p = (fst p + fst (direction s), snd p + snd (direction s))"
  by (auto simp: move_def direction_def)

lemma walk_positions_length: "length (walk_positions p ss) = length ss"
  by (induction ss arbitrary: p) simp_all

lemma walk_positions_nth:
  "k < length ss \<Longrightarrow> walk_positions p ss ! k = move (ss ! k) ((p # walk_positions p ss) ! k)"
proof (induction ss arbitrary: p k)
  case Nil
  then show ?case by simp
next
  case (Cons s ss)
  show ?case
  proof (cases k)
    case 0
    then show ?thesis by simp
  next
    case (Suc n)
    then have "n < length ss" using Cons.prems by simp
    from Cons.IH[OF this, of "move s p"] show ?thesis using Suc by simp
  qed
qed

lemma randints_onto:
  "length xs = n \<Longrightarrow> (\<forall>i<n. a \<le> xs ! i \<and> xs ! i \<le> b \<and> g i = nat (xs ! i - a)) \<Longrightarrow>
   fst (randints n a b g) = xs"
proof (induction n arbitrary: xs g)
  case 0
  then show ?case by simp
next
  case (Suc n)
  then obtain y ys where xs: "xs = y # ys" by (cases xs) auto
  have y: "a \<le> y" "y \<le> b" "g 0 = nat (y - a)" using Suc.prems(2) xs by auto
  then have "nat (y - a) < nat (b - a + 1)" by linarith
  then have h: "fst (randint a b g) = y" using y by (simp add: randint_def)
  have "fst (randints n a b (snd (randint a b g))) = ys"
  proof (rule Suc.IH)
    show "length ys = n" using Suc.prems(1) xs by simp
    show "\<forall>i<n. a \<le> ys ! i \<and> ys ! i \<le> b \<and> snd (randint a b g) i = nat (ys ! i - a)"
    proof (intro allI impI)
      fix i assume "i < n"
      then have "Suc i < Suc n" by simp
      with Suc.prems(2) have "a \<le> xs ! Suc i \<and> xs ! Suc i \<le> b \<and> g (Suc i) = nat (xs ! Suc i - a)"
        by blast
      then show "a \<le> ys ! i \<and> ys ! i \<le> b \<and> snd (randint a b g) i = nat (ys ! i - a)"
        by (simp add: xs randint_def)
    qed
  qed
  then show ?case using h by (simp add: split_beta xs)
qed

lemma initial_draws_onto:
  assumes "7 \<le> r0" "r0 \<le> 20" "7 \<le> c0" "c0 \<le> 20"
    and "length ss = RANDOM_WALK_LENGTH" and "\<forall>s\<in>set ss. 0 \<le> s \<and> s \<le> 3"
  shows "\<exists>g. start_position g = (r0, c0) \<and> walk_steps g = ss"
proof -
  define g :: rng where "g = (\<lambda>n. nat (((r0 - 7) # (c0 - 7) # ss) ! n))"
  define g1 where "g1 = snd (randint 7 20 g)"
  define g2 where "g2 = snd (randint 7 20 g1)"
  have g1: "g1 = (\<lambda>n. g (Suc n))" by (simp add: g1_def randint_def)
  have g2: "g2 = (\<lambda>n. g (Suc (Suc n)))" by (simp add: g2_def g1 randint_def)
  have r: "fst (randint 7 20 g) = r0" using assms(1,2) by (simp add: randint_def g_def)
  have c: "fst (randint 7 20 g1) = c0" using assms(3,4) by (simp add: randint_def g1 g_def)
  have s: "fst (randints RANDOM_WALK_LENGTH 0 3 g2) = ss"
  proof (rule randints_onto[OF assms(5)])
    show "\<forall>i<RANDOM_WALK_LENGTH. 0 \<le> ss ! i \<and> ss ! i \<le> 3 \<and> g2 i = nat (ss ! i - 0)"
      using assms(5,6) by (simp add: g2 g_def)
  qed
  have "start_position g = (r0, c0)"
    using r c by (simp add: start_position_def initial_draws_def split_beta g1_def)
  moreover have "walk_steps g = ss"
    using s by (simp add: walk_steps_def initial_draws_def split_beta g1_def g2_def)
  ultimately show ?thesis by blast
qed

lemma randints_nth:
  "k < n \<Longrightarrow> fst (randints n a b g) ! k = a + int (g k mod nat (b - a + 1))"
proof (induction n arbitrary: g k)
  case 0
  then show ?case by simp
next
  case (Suc n)
  show ?case
  proof (cases k)
    case 0
    then show ?thesis by (simp add: split_beta randint_def)
  next
    case (Suc j)
    then have "j < n" using Suc.prems by simp
    from Suc.IH[OF this, of "snd (randint a b g)"] show ?thesis
      using Suc by (simp add: split_beta randint_def)
  qed
qed

lemma start_position_formula:
  "start_position g = (7 + int (g 0 mod 14), 7 + int (g 1 mod 14))"
  by (simp add: start_position_def initial_draws_def split_beta randint_def)

lemma walk_steps_nth:
  "k < 40 \<Longrightarrow> walk_steps g ! k = int (g (2 + k) mod 4)"
proof -
  assume k: "k < 40"
  have "walk_steps g = fst (randints 40 0 3 (\<lambda>n. g (Suc (Suc n))))"
    by (simp add: walk_steps_def initial_draws_def split_beta randint_def RANDOM_WALK_LENGTH_def)
  then show ?thesis using randints_nth[OF k, of 0 3 "\<lambda>n. g (Suc (Suc n))"] by simp
qed

lemma one_draw_14:
  assumes "7 \<le> v" "v \<le> 20"
  shows "card {d. d < 14 \<and> 7 + int (d mod 14) = v} = 1"
proof -
  have "{d. d < 14 \<and> 7 + int (d mod 14) = v} = {nat (v - 7)}"
    using assms by auto
  then show ?thesis by simp
qed

lemma one_draw_4:
  assumes "0 \<le> s" "s \<le> 3"
  shows "card {d. d < 4 \<and> int (d mod 4) = s} = 1"
proof -
  have "{d. d < 4 \<and> int (d mod 4) = s} = {nat s}"
    using assms by auto
  then show ?thesis by simp
qed

lemma uniform_draws:
  "(\<forall>v. 7 \<le> v \<and> v \<le> 20 \<longrightarrow>
      card {d. d < 14 \<and> fst (start_position (g(0 := d))) = v} = 1 \<and>
      card {d. d < 14 \<and> snd (start_position (g(1 := d))) = v} = 1) \<and>
   (\<forall>k<40. \<forall>s. 0 \<le> s \<and> s \<le> 3 \<longrightarrow>
      card {d. d < 4 \<and> walk_steps (g(2 + k := d)) ! k = s} = 1)"
proof (intro conjI allI impI)
  fix v :: int
  assume v: "7 \<le> v \<and> v \<le> 20"
  have "{d. d < 14 \<and> fst (start_position (g(0 := d))) = v} = {d. d < 14 \<and> 7 + int (d mod 14) = v}"
    by (simp add: start_position_formula)
  then show "card {d. d < 14 \<and> fst (start_position (g(0 := d))) = v} = 1"
    using one_draw_14[of v] v by simp
  have "{d. d < 14 \<and> snd (start_position (g(1 := d))) = v} = {d. d < 14 \<and> 7 + int (d mod 14) = v}"
    by (simp add: start_position_formula)
  then show "card {d. d < 14 \<and> snd (start_position (g(1 := d))) = v} = 1"
    using one_draw_14[of v] v by simp
next
  fix k :: nat and s :: int
  assume k: "k < 40" and s: "0 \<le> s \<and> s \<le> 3"
  have "{d. d < 4 \<and> walk_steps (g(2 + k := d)) ! k = s} = {d. d < 4 \<and> int (d mod 4) = s}"
    by (simp add: walk_steps_nth[OF k])
  then show "card {d. d < 4 \<and> walk_steps (g(2 + k := d)) ! k = s} = 1"
    using one_draw_4[of s] s by simp
qed

lemma tape_of_outcome:
  assumes "length ds = 42"
  shows "start_position (tape_of ds) = (7 + int (ds ! 0 mod 14), 7 + int (ds ! 1 mod 14)) \<and>
         walk_steps (tape_of ds) = map (\<lambda>k. int (ds ! (2 + k) mod 4)) [0..<40]"
proof -
  have l: "length (walk_steps (tape_of ds)) = 40"
    by (simp add: walk_steps_length RANDOM_WALK_LENGTH_def)
  have "walk_steps (tape_of ds) = map (\<lambda>k. int (ds ! (2 + k) mod 4)) [0..<40]"
  proof (rule nth_equalityI)
    show "length (walk_steps (tape_of ds)) = length (map (\<lambda>k. int (ds ! (2 + k) mod 4)) [0..<40])"
      using l by simp
  next
    fix i assume "i < length (walk_steps (tape_of ds))"
    then have i: "i < 40" using l by simp
    then show "walk_steps (tape_of ds) ! i = map (\<lambda>k. int (ds ! (2 + k) mod 4)) [0..<40] ! i"
      using assms by (simp add: walk_steps_nth tape_of_def)
  qed
  then show ?thesis using assms by (simp add: start_position_formula tape_of_def)
qed

lemma one_tape_per_outcome:
  assumes r: "7 \<le> r0" "r0 \<le> 20" and c: "7 \<le> c0" "c0 \<le> 20"
    and l: "length ss = 40" and s: "\<forall>s\<in>set ss. 0 \<le> s \<and> s \<le> 3"
  shows "card {ds. length ds = 42 \<and> ds ! 0 < 14 \<and> ds ! 1 < 14 \<and>
                   (\<forall>k<40. ds ! (2 + k) < 4) \<and>
                   start_position (tape_of ds) = (r0, c0) \<and> walk_steps (tape_of ds) = ss} = 1"
proof -
  let ?D = "nat (r0 - 7) # nat (c0 - 7) # map nat ss"
  let ?S = "{ds. length ds = 42 \<and> ds ! 0 < 14 \<and> ds ! 1 < 14 \<and>
                   (\<forall>k<40. ds ! (2 + k) < 4) \<and>
                   start_position (tape_of ds) = (r0, c0) \<and> walk_steps (tape_of ds) = ss}"
  have lD: "length ?D = 42" using l by simp
  have sk: "0 \<le> ss ! k \<and> ss ! k \<le> 3" if "k < 40" for k
  proof -
    have "ss ! k \<in> set ss" using l that by simp
    then show ?thesis using s by blast
  qed
  have n4: "nat (ss ! k) < 4" if "k < 40" for k
    using sk[OF that] by linarith
  have Dk: "?D ! (2 + k) = nat (ss ! k)" if "k < 40" for k
    using that l by simp
  have o: "start_position (tape_of ds) = (7 + int (ds ! 0 mod 14), 7 + int (ds ! 1 mod 14))"
          "walk_steps (tape_of ds) = map (\<lambda>k. int (ds ! (2 + k) mod 4)) [0..<40]"
    if "length ds = 42" for ds
    using tape_of_outcome[OF that] by simp_all
  have wD: "walk_steps (tape_of ?D) = ss"
  proof (rule nth_equalityI)
    show "length (walk_steps (tape_of ?D)) = length ss"
      using l by (simp add: walk_steps_length RANDOM_WALK_LENGTH_def)
  next
    fix i assume "i < length (walk_steps (tape_of ?D))"
    then have i: "i < 40" by (simp add: walk_steps_length RANDOM_WALK_LENGTH_def)
    have "walk_steps (tape_of ?D) ! i = int (?D ! (2 + i) mod 4)"
      using o(2)[OF lD] i by simp
    also have "\<dots> = int (nat (ss ! i) mod 4)" by (simp only: Dk[OF i])
    also have "\<dots> = int (nat (ss ! i))" using n4[OF i] by simp
    also have "\<dots> = ss ! i" using sk[OF i] by simp
    finally show "walk_steps (tape_of ?D) ! i = ss ! i" .
  qed
  have sD: "start_position (tape_of ?D) = (r0, c0)"
  proof -
    have "nat (r0 - 7) < 14" "nat (c0 - 7) < 14" using r c by linarith+
    then show ?thesis using o(1)[OF lD] r c by simp
  qed
  have bD: "\<forall>k<40. ?D ! (2 + k) < 4"
  proof (intro allI impI)
    fix k :: nat assume k: "k < 40"
    show "?D ! (2 + k) < 4" using n4[OF k] by (simp only: Dk[OF k])
  qed
  have b0: "?D ! 0 < 14" "?D ! 1 < 14" using r c by simp_all
  have in_S: "?D \<in> ?S" using lD b0 bD sD wD by blast
  have "ds = ?D" if m: "ds \<in> ?S" for ds
  proof (rule nth_equalityI)
    show "length ds = length ?D" using m lD by simp
  next
    fix i assume "i < length ds"
    then have i: "i < 42" using m by simp
    have ld: "length ds = 42" using m by simp
    have sp: "start_position (tape_of ds) = (r0, c0)" and ws: "walk_steps (tape_of ds) = ss"
      and b: "ds ! 0 < 14" "ds ! 1 < 14" "\<forall>k<40. ds ! (2 + k) < 4"
      using m by simp_all
    have "7 + int (ds ! 0 mod 14) = r0" "7 + int (ds ! 1 mod 14) = c0"
      using sp o(1)[OF ld] by simp_all
    then have d0: "ds ! 0 = nat (r0 - 7)" and d1: "ds ! 1 = nat (c0 - 7)"
      using b(1,2) by simp_all
    show "ds ! i = ?D ! i"
    proof (cases "i < 2")
      case True
      then have "i = 0 \<or> i = 1" by auto
      then show ?thesis using d0 d1 by auto
    next
      case False
      define k where "k = i - 2"
      have k: "i = 2 + k" "k < 40" using False i by (simp_all add: k_def)
      have "ss ! k = map (\<lambda>k. int (ds ! (2 + k) mod 4)) [0..<40] ! k"
        using ws o(2)[OF ld] by simp
      then have "ss ! k = int (ds ! (2 + k) mod 4)" using k(2) by simp
      moreover have "ds ! (2 + k) < 4" using b(3) k(2) by blast
      ultimately have "ds ! (2 + k) = nat (ss ! k)" by simp
      then show ?thesis using Dk[OF k(2)] by (simp only: k(1))
    qed
  qed
  then have "?S = {?D}" using in_S by blast
  then show ?thesis by simp
qed

text \<open>
  C2: the walk. The start has both coordinates between 7 and 20; exactly
  \<open>RANDOM_WALK_LENGTH = 40\<close> steps are drawn, each one of 0, 1, 2, 3, and step \<open>k\<close>
  moves the agent by the direction of its value (0 row - 1, 1 column + 1, 2 row + 1,
  3 column - 1). The mask array the walk leaves is 1 on the cells of the grid within
  Chebyshev distance \<open>VISIBLE_RADIUS = 5\<close> of a position reached after a step (the
  start is not among them) and 0 elsewhere. Every start in 7..20 x 7..20 and every
  sequence of 40 directions is drawn from some generator.

  The draws are uniform: the row is the first raw draw reduced modulo 14, the column
  the second, step \<open>k\<close> draw \<open>2 + k\<close> reduced modulo 4, each a function of its own
  draw alone; each of the 14 values of a coordinate comes from exactly one of the 14
  raw draws, each of the 4 directions from exactly one of the 4 raw draws, and each
  pair of a start and 40 directions from exactly one sequence of 42 raw draws.
\<close>

theorem random_walk_structure:
  "7 \<le> fst (start_position g) \<and> fst (start_position g) \<le> 20 \<and>
   7 \<le> snd (start_position g) \<and> snd (start_position g) \<le> 20 \<and>
   RANDOM_WALK_LENGTH = 40 \<and> VISIBLE_RADIUS = 5 \<and>
   length (walk_steps g) = 40 \<and> length (agent_path g) = 40 \<and>
   (\<forall>k<40. walk_steps g ! k \<in> {0, 1, 2, 3} \<and>
      agent_path g ! k =
        (fst ((start_position g # agent_path g) ! k) + fst (direction (walk_steps g ! k)),
         snd ((start_position g # agent_path g) ! k) + snd (direction (walk_steps g ! k)))) \<and>
   direction 0 = (- 1, 0) \<and> direction 1 = (0, 1) \<and> direction 2 = (1, 0) \<and>
   direction 3 = (0, - 1) \<and>
   (\<exists>m :: ('a::{zero,one}) ndarray.
      random_walk g = Inr ((last (agent_path g), m), rng_after g) \<and>
      shape m = [28, 28] \<and> wf_ndarray m \<and>
      (\<forall>x<28. \<forall>y<28. item2 m x y =
         (if \<exists>q\<in>set (agent_path g). chebyshev q (int x, int y) \<le> VISIBLE_RADIUS
          then 1 else 0))) \<and>
   (\<forall>r0 c0 ss. 7 \<le> r0 \<and> r0 \<le> 20 \<and> 7 \<le> c0 \<and> c0 \<le> 20 \<and> length ss = 40 \<and>
        (\<forall>s\<in>set ss. s \<in> {0, 1, 2, 3}) \<longrightarrow>
        (\<exists>g'. start_position g' = (r0, c0) \<and> walk_steps g' = ss)) \<and>
   start_position g = (7 + int (g 0 mod 14), 7 + int (g 1 mod 14)) \<and>
   (\<forall>k<40. walk_steps g ! k = int (g (2 + k) mod 4)) \<and>
   (\<forall>v. 7 \<le> v \<and> v \<le> 20 \<longrightarrow>
      card {d. d < 14 \<and> fst (start_position (g(0 := d))) = v} = 1 \<and>
      card {d. d < 14 \<and> snd (start_position (g(1 := d))) = v} = 1) \<and>
   (\<forall>k<40. \<forall>s. 0 \<le> s \<and> s \<le> 3 \<longrightarrow>
      card {d. d < 4 \<and> walk_steps (g(2 + k := d)) ! k = s} = 1) \<and>
   (\<forall>r0 c0 ss. 7 \<le> r0 \<and> r0 \<le> 20 \<and> 7 \<le> c0 \<and> c0 \<le> 20 \<and> length ss = 40 \<and>
        (\<forall>s\<in>set ss. s \<in> {0, 1, 2, 3}) \<longrightarrow>
        card {ds. length ds = 42 \<and> ds ! 0 < 14 \<and> ds ! 1 < 14 \<and>
                  (\<forall>k<40. ds ! (2 + k) < 4) \<and>
                  start_position (tape_of ds) = (r0, c0) \<and> walk_steps (tape_of ds) = ss} = 1)"
proof -
  have len: "length (walk_steps g) = 40"
    by (simp add: walk_steps_length RANDOM_WALK_LENGTH_def)
  have plen: "length (agent_path g) = 40"
    by (simp add: agent_path_def walk_positions_length len)
  have steps: "\<forall>k<40. walk_steps g ! k \<in> {0, 1, 2, 3} \<and>
      agent_path g ! k =
        (fst ((start_position g # agent_path g) ! k) + fst (direction (walk_steps g ! k)),
         snd ((start_position g # agent_path g) ! k) + snd (direction (walk_steps g ! k)))"
  proof (intro allI impI)
    fix k :: nat
    assume k: "k < 40"
    then have kl: "k < length (walk_steps g)" using len by simp
    then have "walk_steps g ! k \<in> set (walk_steps g)" by simp
    then have rg: "0 \<le> walk_steps g ! k" "walk_steps g ! k \<le> 3"
      using walk_steps_range by blast+
    then have "walk_steps g ! k \<in> {0, 1, 2, 3}" by auto
    moreover have "agent_path g ! k = move (walk_steps g ! k) ((start_position g # agent_path g) ! k)"
      unfolding agent_path_def using kl by (rule walk_positions_nth)
    ultimately show "walk_steps g ! k \<in> {0, 1, 2, 3} \<and>
      agent_path g ! k =
        (fst ((start_position g # agent_path g) ! k) + fst (direction (walk_steps g ! k)),
         snd ((start_position g # agent_path g) ! k) + snd (direction (walk_steps g ! k)))"
      using move_direction[OF rg] by simp
  qed
  have ne: "agent_path g \<noteq> []" using plen by auto
  from random_walk_result[of g] obtain m :: "'a ndarray" where
    rw: "random_walk g = Inr ((last (start_position g # agent_path g), m), rng_after g)" and
    gm: "grid28 m" and
    c: "\<forall>i<28. \<forall>j<28. item2 m i j = (if visible g (int i, int j) then 1 else 0)"
    by blast
  have cells: "\<forall>x<28. \<forall>y<28. item2 m x y =
         (if \<exists>q\<in>set (agent_path g). chebyshev q (int x, int y) \<le> VISIBLE_RADIUS
          then 1 else 0)"
    using c by (simp add: visible_def seen_from_def in_grid_nat)
  have walk: "\<exists>m :: 'a ndarray.
      random_walk g = Inr ((last (agent_path g), m), rng_after g) \<and>
      shape m = [28, 28] \<and> wf_ndarray m \<and>
      (\<forall>x<28. \<forall>y<28. item2 m x y =
         (if \<exists>q\<in>set (agent_path g). chebyshev q (int x, int y) \<le> VISIBLE_RADIUS
          then 1 else 0))"
    using rw gm cells ne unfolding grid28_iff by auto
  have onto: "\<forall>r0 c0 ss. 7 \<le> r0 \<and> r0 \<le> 20 \<and> 7 \<le> c0 \<and> c0 \<le> 20 \<and> length ss = 40 \<and>
        (\<forall>s\<in>set ss. s \<in> {0, 1, 2, 3}) \<longrightarrow>
        (\<exists>g'. start_position g' = (r0, c0) \<and> walk_steps g' = ss)"
  proof (intro allI impI)
    fix r0 c0 :: int and ss :: "int list"
    assume a: "7 \<le> r0 \<and> r0 \<le> 20 \<and> 7 \<le> c0 \<and> c0 \<le> 20 \<and> length ss = 40 \<and>
        (\<forall>s\<in>set ss. s \<in> {0, 1, 2, 3})"
    then have l: "length ss = RANDOM_WALK_LENGTH" by (simp add: RANDOM_WALK_LENGTH_def)
    have r: "\<forall>s\<in>set ss. 0 \<le> s \<and> s \<le> 3" using a by auto
    show "\<exists>g'. start_position g' = (r0, c0) \<and> walk_steps g' = ss"
      using initial_draws_onto[OF _ _ _ _ l r, of r0 c0] a by blast
  qed
  have dirs: "direction 0 = (- 1, 0) \<and> direction 1 = (0, 1) \<and> direction 2 = (1, 0) \<and>
      direction 3 = (0, - 1)"
    by (simp add: direction_def)
  have cs: "RANDOM_WALK_LENGTH = 40 \<and> VISIBLE_RADIUS = 5"
    by (simp add: RANDOM_WALK_LENGTH_def VISIBLE_RADIUS_def)
  have formula: "start_position g = (7 + int (g 0 mod 14), 7 + int (g 1 mod 14))"
    by (rule start_position_formula)
  have nth: "\<forall>k<40. walk_steps g ! k = int (g (2 + k) mod 4)"
    by (simp add: walk_steps_nth)
  have each: "\<forall>v. 7 \<le> v \<and> v \<le> 20 \<longrightarrow>
      card {d. d < 14 \<and> fst (start_position (g(0 := d))) = v} = 1 \<and>
      card {d. d < 14 \<and> snd (start_position (g(1 := d))) = v} = 1"
    and each_step: "\<forall>k<40. \<forall>s. 0 \<le> s \<and> s \<le> 3 \<longrightarrow>
      card {d. d < 4 \<and> walk_steps (g(2 + k := d)) ! k = s} = 1"
    using uniform_draws[of g] by (rule conjunct1, rule conjunct2)
  have joint: "\<forall>r0 c0 ss. 7 \<le> r0 \<and> r0 \<le> 20 \<and> 7 \<le> c0 \<and> c0 \<le> 20 \<and> length ss = 40 \<and>
        (\<forall>s\<in>set ss. s \<in> {0, 1, 2, 3}) \<longrightarrow>
        card {ds. length ds = 42 \<and> ds ! 0 < 14 \<and> ds ! 1 < 14 \<and>
                  (\<forall>k<40. ds ! (2 + k) < 4) \<and>
                  start_position (tape_of ds) = (r0, c0) \<and> walk_steps (tape_of ds) = ss} = 1"
  proof (intro allI impI)
    fix r0 c0 :: int and ss :: "int list"
    assume a: "7 \<le> r0 \<and> r0 \<le> 20 \<and> 7 \<le> c0 \<and> c0 \<le> 20 \<and> length ss = 40 \<and>
        (\<forall>s\<in>set ss. s \<in> {0, 1, 2, 3})"
    have r: "\<forall>s\<in>set ss. 0 \<le> s \<and> s \<le> 3" using a by auto
    show "card {ds. length ds = 42 \<and> ds ! 0 < 14 \<and> ds ! 1 < 14 \<and>
                  (\<forall>k<40. ds ! (2 + k) < 4) \<and>
                  start_position (tape_of ds) = (r0, c0) \<and> walk_steps (tape_of ds) = ss} = 1"
      using a by (intro one_tape_per_outcome r) simp_all
  qed
  have sr: "7 \<le> fst (start_position g)" "fst (start_position g) \<le> 20"
    "7 \<le> snd (start_position g)" "snd (start_position g) \<le> 20"
    using start_position_range[of g] by simp_all
  have c1: "RANDOM_WALK_LENGTH = 40" and c2: "VISIBLE_RADIUS = 5" using cs by simp_all
  have d: "direction 0 = (- 1, 0)" "direction 1 = (0, 1)" "direction 2 = (1, 0)"
    "direction 3 = (0, - 1)" using dirs by simp_all
  show ?thesis
    by (intro conjI) (rule sr c1 c2 len plen steps d walk onto formula nth each each_step joint)+
qed

theorem random_walk_structure_witness:
  "start_position all_down = (7, 7) \<and>
   chebyshev (7, 7) (2, 7) \<le> VISIBLE_RADIUS \<and>
   agent_path all_down ! 0 = (8, 7) \<and>
   (\<exists>m :: int ndarray.
      random_walk all_down = Inr ((last (agent_path all_down), m), rng_after all_down) \<and>
      item2 m 2 7 = 0 \<and> item2 m 3 7 = 1) \<and>
   card {d. d < 14 \<and> fst (start_position (all_down(0 := d))) = 9} = 1 \<and>
   card {d. d < 4 \<and> walk_steps (all_down(2 + 5 := d)) ! 5 = 3} = 1"
proof -
  have s: "start_position all_down = (7, 7)" by code_simp
  have d: "chebyshev (7, 7) (2, 7) \<le> VISIBLE_RADIUS" by code_simp
  have p: "agent_path all_down ! 0 = (8, 7)" by code_simp
  have n: "\<not> (\<exists>q\<in>set (agent_path all_down). chebyshev q (int 2, int 7) \<le> VISIBLE_RADIUS)"
    by code_simp
  have y: "\<exists>q\<in>set (agent_path all_down). chebyshev q (int 3, int 7) \<le> VISIBLE_RADIUS"
    by code_simp
  note t = random_walk_structure[where 'a = int, of all_down]
  have "\<exists>m :: int ndarray.
      random_walk all_down = Inr ((last (agent_path all_down), m), rng_after all_down) \<and>
      shape m = [28, 28] \<and> wf_ndarray m \<and>
      (\<forall>x<28. \<forall>y<28. item2 m x y =
         (if \<exists>q\<in>set (agent_path all_down). chebyshev q (int x, int y) \<le> VISIBLE_RADIUS
          then 1 else 0))"
    using t by (elim conjE)
  then obtain m :: "int ndarray" where
    rw: "random_walk all_down = Inr ((last (agent_path all_down), m), rng_after all_down)" and
    c: "\<forall>x<28. \<forall>y<28. item2 m x y =
         (if \<exists>q\<in>set (agent_path all_down). chebyshev q (int x, int y) \<le> VISIBLE_RADIUS
          then 1 else 0)"
    by blast
  have u1: "\<forall>v. 7 \<le> v \<and> v \<le> 20 \<longrightarrow>
      card {d. d < 14 \<and> fst (start_position (all_down(0 := d))) = v} = 1 \<and>
      card {d. d < 14 \<and> snd (start_position (all_down(1 := d))) = v} = 1"
    using t by (elim conjE)
  have u2: "\<forall>k<40. \<forall>s. 0 \<le> s \<and> s \<le> 3 \<longrightarrow>
      card {d. d < 4 \<and> walk_steps (all_down(2 + k := d)) ! k = s} = 1"
    using t by (elim conjE)
  have k1: "card {d. d < 14 \<and> fst (start_position (all_down(0 := d))) = 9} = 1"
    using u1 by simp
  have "(5::nat) < 40" "(0::int) \<le> 3 \<and> (3::int) \<le> 3" by simp_all
  then have k2: "card {d. d < 4 \<and> walk_steps (all_down(2 + 5 := d)) ! 5 = 3} = 1"
    using u2 by blast
  have "item2 m 2 7 = 0" using c n by simp
  moreover have "item2 m 3 7 = 1" using c y by simp
  ultimately show ?thesis using s d p rw k1 k2 by blast
qed

section \<open>The first window, and the shapes accepted and returned\<close>

lemma first_position_range:
  "agent_path g ! 0 \<in> set (agent_path g) \<and>
   6 \<le> fst (agent_path g ! 0) \<and> fst (agent_path g ! 0) \<le> 21 \<and>
   6 \<le> snd (agent_path g ! 0) \<and> snd (agent_path g ! 0) \<le> 21"
proof -
  have len: "0 < length (walk_steps g)"
    by (simp add: walk_steps_length RANDOM_WALK_LENGTH_def)
  then have "walk_steps g ! 0 \<in> set (walk_steps g)" by simp
  then have rg: "0 \<le> walk_steps g ! 0" "walk_steps g ! 0 \<le> 3"
    using walk_steps_range by blast+
  have p: "agent_path g ! 0 = move (walk_steps g ! 0) (start_position g)"
    unfolding agent_path_def using walk_positions_nth[OF len, of "start_position g"] by simp
  have "0 < length (agent_path g)"
    using len by (simp add: agent_path_def walk_positions_length)
  then have "agent_path g ! 0 \<in> set (agent_path g)" by simp
  moreover have "6 \<le> fst (agent_path g ! 0) \<and> fst (agent_path g ! 0) \<le> 21 \<and>
   6 \<le> snd (agent_path g ! 0) \<and> snd (agent_path g ! 0) \<le> 21"
    using start_position_range[of g] rg unfolding p move_def by auto
  ultimately show ?thesis by blast
qed

lemma window_visible:
  assumes "q \<in> set (agent_path g)" "6 \<le> fst q" "fst q \<le> 21" "6 \<le> snd q" "snd q \<le> 21"
    and "x \<in> {fst q - VISIBLE_RADIUS..fst q + VISIBLE_RADIUS}"
    and "y \<in> {snd q - VISIBLE_RADIUS..snd q + VISIBLE_RADIUS}"
  shows "in_grid (x, y) \<and> visible g (x, y)"
proof -
  have g: "in_grid (x, y)" using assms by (simp add: in_grid_def VISIBLE_RADIUS_def)
  have "chebyshev q (x, y) \<le> VISIBLE_RADIUS"
    using assms(6,7) by (auto simp: chebyshev_def)
  then show ?thesis using g assms(1) by (auto simp: visible_def seen_from_def)
qed

lemma finite_visible: "finite {c. visible g c}"
proof (rule finite_subset)
  show "{c. visible g c} \<subseteq> {0..27} \<times> {0..27}"
    by (auto simp: visible_def seen_from_def in_grid_def)
  show "finite ({0..27::int} \<times> {0..27::int})" by simp
qed

text \<open>
  C9: the visibility region is never empty. After the first step the agent is in
  [6, 21] x [6, 21], its whole 11x11 window is inside the grid and marked, the masked
  image agrees with the input on it, and at least 121 cells are visible.
\<close>

theorem visibility_region_nonempty:
  fixes img :: "'a::semiring_1 ndarray"
  assumes "shape img = [28, 28]" and "wf_ndarray img"
  shows "\<exists>out (m :: 'a ndarray) p g' r c.
           random_walk g = Inr ((p, m), g') \<and>
           mask img w rad g = Inr (out, g') \<and>
           agent_path g ! 0 = (r, c) \<and>
           6 \<le> r \<and> r \<le> 21 \<and> 6 \<le> c \<and> c \<le> 21 \<and>
           (\<forall>x\<in>{r - VISIBLE_RADIUS..r + VISIBLE_RADIUS}.
            \<forall>y\<in>{c - VISIBLE_RADIUS..c + VISIBLE_RADIUS}.
              in_grid (x, y) \<and> visible g (x, y) \<and>
              item2 m (nat x) (nat y) = 1 \<and>
              item2 out (nat x) (nat y) = item2 img (nat x) (nat y)) \<and>
           card ({r - VISIBLE_RADIUS..r + VISIBLE_RADIUS} \<times>
                 {c - VISIBLE_RADIUS..c + VISIBLE_RADIUS}) = 121 \<and>
           121 \<le> card {c. visible g c}"
proof -
  have gi: "grid28 img" using assms by (simp add: grid28_iff)
  from mask_grid28[OF gi, of g w rad] obtain m p where
    rw: "random_walk g = Inr ((p, m), rng_after g)" and
    mk: "mask img w rad g = Inr (multiply img m, rng_after g)" and
    gm: "grid28 m" and
    cm: "\<forall>i<28. \<forall>j<28. item2 m i j = (if visible g (int i, int j) then 1 else 0)"
    by blast
  obtain r c where rc: "agent_path g ! 0 = (r, c)" by (cases "agent_path g ! 0") auto
  from first_position_range[of g] rc have
    q: "(r, c) \<in> set (agent_path g)" and b: "6 \<le> r" "r \<le> 21" "6 \<le> c" "c \<le> 21"
    by auto
  let ?X = "{r - VISIBLE_RADIUS..r + VISIBLE_RADIUS}"
  let ?Y = "{c - VISIBLE_RADIUS..c + VISIBLE_RADIUS}"
  have win: "in_grid (x, y) \<and> visible g (x, y)" if "x \<in> ?X" "y \<in> ?Y" for x y
    using window_visible[OF q, of x y] b that by simp
  have px: "\<forall>x\<in>?X. \<forall>y\<in>?Y.
              in_grid (x, y) \<and> visible g (x, y) \<and>
              item2 m (nat x) (nat y) = 1 \<and>
              item2 (multiply img m) (nat x) (nat y) = item2 img (nat x) (nat y)"
  proof (intro ballI)
    fix x y
    assume xy: "x \<in> ?X" "y \<in> ?Y"
    from win[OF xy] have g: "in_grid (x, y)" and v: "visible g (x, y)" by blast+
    from g have n: "nat x < 28" "nat y < 28" and i: "int (nat x) = x" "int (nat y) = y"
      by (auto simp: in_grid_def)
    have m1: "item2 m (nat x) (nat y) = 1" using cm n v i by simp
    have "item2 (multiply img m) (nat x) (nat y) = item2 img (nat x) (nat y) * item2 m (nat x) (nat y)"
      using gi gm n by (rule item2_multiply)
    then show "in_grid (x, y) \<and> visible g (x, y) \<and>
              item2 m (nat x) (nat y) = 1 \<and>
              item2 (multiply img m) (nat x) (nat y) = item2 img (nat x) (nat y)"
      using g v m1 by simp
  qed
  have cardw: "card (?X \<times> ?Y) = 121"
    by (simp add: card_cartesian_product VISIBLE_RADIUS_def)
  have "?X \<times> ?Y \<subseteq> {c. visible g c}" using win by auto
  then have "card (?X \<times> ?Y) \<le> card {c. visible g c}"
    using finite_visible by (rule card_mono[rotated])
  then have cardv: "121 \<le> card {c. visible g c}" using cardw by simp
  show ?thesis
  proof (intro exI conjI)
    show "random_walk g = Inr ((p, m), rng_after g)" by (rule rw)
    show "mask img w rad g = Inr (multiply img m, rng_after g)" by (rule mk)
    show "agent_path g ! 0 = (r, c)" by (rule rc)
    show "6 \<le> r" "r \<le> 21" "6 \<le> c" "c \<le> 21" by (rule b)+
    show "\<forall>x\<in>?X. \<forall>y\<in>?Y.
        in_grid (x, y) \<and> visible g (x, y) \<and>
        item2 m (nat x) (nat y) = 1 \<and>
        item2 (multiply img m) (nat x) (nat y) = item2 img (nat x) (nat y)" by (rule px)
    show "card (?X \<times> ?Y) = 121" by (rule cardw)
    show "121 \<le> card {c. visible g c}" by (rule cardv)
  qed
qed

theorem visibility_region_nonempty_witness:
  "shape \<lparr>shape = [28, 28], data = replicate 784 (1::int)\<rparr> = [28, 28] \<and>
   wf_ndarray \<lparr>shape = [28, 28], data = replicate 784 (1::int)\<rparr> \<and>
   agent_path all_down ! 0 = (8, 7) \<and>
   (\<exists>out g'. mask \<lparr>shape = [28, 28], data = replicate 784 (1::int)\<rparr> 40 5 all_down = Inr (out, g') \<and>
      item2 out 3 2 = 1 \<and> item2 out 13 12 = 1 \<and> item2 out 8 7 = 1)"
proof -
  let ?img = "\<lparr>shape = [28, 28], data = replicate 784 (1::int)\<rparr>"
  have s: "shape ?img = [28, 28]" by simp
  have w: "wf_ndarray ?img" by (simp add: wf_ndarray_def)
  have p: "agent_path all_down ! 0 = (8, 7)" by code_simp
  have i: "item2 ?img 3 2 = 1" "item2 ?img 13 12 = 1" "item2 ?img 8 7 = 1"
    by (simp_all add: item2_def)
  from visibility_region_nonempty[OF s w, of all_down 40 5] p obtain out g' where
    mk: "mask ?img 40 5 all_down = Inr (out, g')" and
    px: "\<forall>x\<in>{8 - VISIBLE_RADIUS..8 + VISIBLE_RADIUS}.
            \<forall>y\<in>{7 - VISIBLE_RADIUS..7 + VISIBLE_RADIUS}.
              item2 out (nat x) (nat y) = item2 ?img (nat x) (nat y)"
    by auto
  have m: "(3::int) \<in> {8 - VISIBLE_RADIUS..8 + VISIBLE_RADIUS}"
    "(13::int) \<in> {8 - VISIBLE_RADIUS..8 + VISIBLE_RADIUS}"
    "(8::int) \<in> {8 - VISIBLE_RADIUS..8 + VISIBLE_RADIUS}"
    "(2::int) \<in> {7 - VISIBLE_RADIUS..7 + VISIBLE_RADIUS}"
    "(12::int) \<in> {7 - VISIBLE_RADIUS..7 + VISIBLE_RADIUS}"
    "(7::int) \<in> {7 - VISIBLE_RADIUS..7 + VISIBLE_RADIUS}"
    by (simp_all add: VISIBLE_RADIUS_def)
  have "item2 out (nat 3) (nat 2) = item2 ?img (nat 3) (nat 2)"
    using px m(1,4) by blast
  moreover have "item2 out (nat 13) (nat 12) = item2 ?img (nat 13) (nat 12)"
    using px m(2,5) by blast
  moreover have "item2 out (nat 8) (nat 7) = item2 ?img (nat 8) (nat 7)"
    using px m(3,6) by blast
  ultimately show ?thesis using s w p mk i by auto
qed

lemma channel0_shape:
  "shape a = [rows, cols, ch] \<Longrightarrow> 0 < ch \<Longrightarrow>
   \<exists>sl. channel0 a = Inr sl \<and> shape sl = [rows, cols] \<and> length (data sl) = rows * cols \<and>
        (\<forall>x<rows. \<forall>y<cols. item2 sl x y = data a ! ((x * cols + y) * ch + 0))"
proof -
  assume s: "shape a = [rows, cols, ch]" and c: "0 < ch"
  let ?sl = "\<lparr>shape = [rows, cols], data = map (\<lambda>k. data a ! (k * ch)) [0..<rows * cols]\<rparr>"
  have e: "channel0 a = Inr ?sl" using s c by (simp add: channel0_def)
  have "item2 ?sl x y = data a ! ((x * cols + y) * ch + 0)" if "x < rows" "y < cols" for x y
  proof -
    have "x * cols + y < Suc x * cols" using that by simp
    also have "\<dots> \<le> rows * cols" using that by (intro mult_le_mono1) simp
    finally have "x * cols + y < rows * cols" .
    then show ?thesis by (simp add: item2_def)
  qed
  then show ?thesis using e by auto
qed

lemma mask_Inr_shape: "mask img w r g = Inr (out, g') \<Longrightarrow> shape out = [28, 28]"
  unfolding mask_def
  by (auto simp: multiply_def split: sum.splits if_splits prod.splits)

lemma mask_2d:
  "length (shape img) \<noteq> 3 \<Longrightarrow>
   mask img w r g = (if shape img = [28, 28]
                     then (case random_walk g of Inl e \<Rightarrow> Inl e
                           | Inr ((p, m), g') \<Rightarrow> Inr (multiply img m, g'))
                     else Inl AssertionError)"
  by (simp add: mask_def)

lemma mask_3d:
  "length (shape img) = 3 \<Longrightarrow>
   mask img w r g = (case channel0 img of Inl e \<Rightarrow> Inl e | Inr sl \<Rightarrow> mask sl w r g)"
proof -
  assume l: "length (shape img) = 3"
  then obtain rows cols ch where s: "shape img = [rows, cols, ch]"
    by (cases "shape img" rule: list.exhaust; simp)
       (metis (no_types) Suc_length_conv length_0_conv numeral_2_eq_2 Suc_1 Suc_inject)
  show ?thesis
  proof (cases "ch = 0")
    case True
    then show ?thesis using s by (simp add: mask_def channel0_def)
  next
    case False
    then have "0 < ch" by simp
    from channel0_shape[OF s this] obtain sl where
      c: "channel0 img = Inr sl" and sh: "shape sl = [rows, cols]" by blast
    have "length (shape sl) \<noteq> 3" using sh by simp
    then show ?thesis using l c by (simp add: mask_def)
  qed
qed

lemma mask_28x28_returns:
  "shape img = [28, 28] \<Longrightarrow> \<exists>out g'. mask img w r g = Inr (out, g')"
proof -
  assume s: "shape img = [28, 28]"
  from random_walk_result[of g] obtain m :: "'a ndarray" where
    rw: "random_walk g = Inr ((last (start_position g # agent_path g), m), rng_after g)"
    by blast
  show ?thesis unfolding mask_def by (simp add: s rw)
qed

text \<open>
  C5: \<open>mask\<close> accepts only 28x28 images. An input that is not 3-dimensional (so every
  2-dimensional one) whose shape is not (28, 28) raises AssertionError, one of shape
  (28, 28) passes the assertion and is masked. For a 3-dimensional input of shape
  (rows, cols, ch) the slice at channel 0 is taken and \<open>mask\<close> continues as on that
  slice: it returns when (rows, cols) = (28, 28) and raises AssertionError otherwise.
  With no channel at all (ch = 0) the slice itself raises IndexError.
\<close>

theorem mask_accepts_only_28x28:
  "(length (shape img) \<noteq> 3 \<and> shape img \<noteq> [28, 28] \<longrightarrow> mask img w r g = Inl AssertionError) \<and>
   (shape img = [28, 28] \<longrightarrow> (\<exists>out g'. mask img w r g = Inr (out, g'))) \<and>
   (\<forall>rows cols ch. shape img = [rows, cols, ch] \<longrightarrow>
      mask img w r g = (case channel0 img of Inl e \<Rightarrow> Inl e | Inr sl \<Rightarrow> mask sl w r g) \<and>
      (ch = 0 \<longrightarrow> mask img w r g = Inl IndexError) \<and>
      (0 < ch \<longrightarrow>
         (\<exists>sl. channel0 img = Inr sl \<and> shape sl = [rows, cols] \<and>
            (\<forall>x<rows. \<forall>y<cols. item2 sl x y = data img ! ((x * cols + y) * ch + 0)) \<and>
            mask img w r g = mask sl w r g \<and>
            (if rows = 28 \<and> cols = 28
             then \<exists>out g'. mask img w r g = Inr (out, g')
             else mask img w r g = Inl AssertionError))))"
proof (intro conjI allI impI)
  assume "length (shape img) \<noteq> 3 \<and> shape img \<noteq> [28, 28]"
  then show "mask img w r g = Inl AssertionError" by (simp add: mask_2d)
next
  assume "shape img = [28, 28]"
  then show "\<exists>out g'. mask img w r g = Inr (out, g')" by (rule mask_28x28_returns)
next
  fix rows cols ch
  assume s: "shape img = [rows, cols, ch]"
  then have l: "length (shape img) = 3" by simp
  show m3: "mask img w r g = (case channel0 img of Inl e \<Rightarrow> Inl e | Inr sl \<Rightarrow> mask sl w r g)"
    using l by (rule mask_3d)
  {
    assume "ch = 0"
    then show "mask img w r g = Inl IndexError" using s by (simp add: m3 channel0_def)
  }
  {
    assume c: "0 < ch"
    from channel0_shape[OF s c] obtain sl where
      e: "channel0 img = Inr sl" and sh: "shape sl = [rows, cols]" and
      px: "\<forall>x<rows. \<forall>y<cols. item2 sl x y = data img ! ((x * cols + y) * ch + 0)"
      by blast
    have eq: "mask img w r g = mask sl w r g" by (simp add: m3 e)
    have l2: "length (shape sl) \<noteq> 3" using sh by simp
    have dec: "if rows = 28 \<and> cols = 28
             then \<exists>out g'. mask img w r g = Inr (out, g')
             else mask img w r g = Inl AssertionError"
    proof (cases "rows = 28 \<and> cols = 28")
      case True
      then have "shape sl = [28, 28]" using sh by simp
      from mask_28x28_returns[OF this, of w r g] show ?thesis using True eq by simp
    next
      case False
      then have "shape sl \<noteq> [28, 28]" using sh by auto
      then have "mask sl w r g = Inl AssertionError" using l2 by (simp add: mask_2d)
      then show ?thesis using False eq by simp
    qed
    show "\<exists>sl. channel0 img = Inr sl \<and> shape sl = [rows, cols] \<and>
            (\<forall>x<rows. \<forall>y<cols. item2 sl x y = data img ! ((x * cols + y) * ch + 0)) \<and>
            mask img w r g = mask sl w r g \<and>
            (if rows = 28 \<and> cols = 28
             then \<exists>out g'. mask img w r g = Inr (out, g')
             else mask img w r g = Inl AssertionError)"
      using e sh px eq dec by blast
  }
qed

theorem mask_accepts_only_28x28_witness:
  "mask \<lparr>shape = [3, 4], data = replicate 12 (0::int)\<rparr> 40 5 (\<lambda>n. 0) = Inl AssertionError \<and>
   (\<exists>out g'. mask \<lparr>shape = [28, 28], data = replicate 784 (0::int)\<rparr> 40 5 (\<lambda>n. 0) = Inr (out, g')) \<and>
   mask \<lparr>shape = [28, 28, 0], data = ([]::int list)\<rparr> 40 5 (\<lambda>n. 0) = Inl IndexError \<and>
   mask \<lparr>shape = [5, 5, 1], data = replicate 25 (0::int)\<rparr> 40 5 (\<lambda>n. 0) = Inl AssertionError \<and>
   (\<exists>out g'. mask \<lparr>shape = [28, 28, 3], data = replicate 2352 (0::int)\<rparr> 40 5 (\<lambda>n. 0) = Inr (out, g'))"
proof -
  let ?a = "\<lparr>shape = [3, 4], data = replicate 12 (0::int)\<rparr>"
  let ?b = "\<lparr>shape = [28, 28], data = replicate 784 (0::int)\<rparr>"
  let ?c = "\<lparr>shape = [28, 28, 0], data = ([]::int list)\<rparr>"
  let ?d = "\<lparr>shape = [5, 5, 1], data = replicate 25 (0::int)\<rparr>"
  let ?e = "\<lparr>shape = [28, 28, 3], data = replicate 2352 (0::int)\<rparr>"
  have a: "length (shape ?a) \<noteq> 3 \<and> shape ?a \<noteq> [28, 28]" by simp
  have b: "shape ?b = [28, 28]" by simp
  have c: "shape ?c = [28, 28, 0]" by simp
  have d: "shape ?d = [5, 5, 1]" "(0::nat) < 1" "\<not> ((5::nat) = 28 \<and> (5::nat) = 28)" by simp_all
  have e: "shape ?e = [28, 28, 3]" "(0::nat) < 3" by simp_all
  have "mask ?a 40 5 (\<lambda>n. 0) = Inl AssertionError"
    using mask_accepts_only_28x28[of ?a 40 5 "\<lambda>n. 0"] a by blast
  moreover have "\<exists>out g'. mask ?b 40 5 (\<lambda>n. 0) = Inr (out, g')"
    using mask_accepts_only_28x28[of ?b 40 5 "\<lambda>n. 0"] b by blast
  moreover have "mask ?c 40 5 (\<lambda>n. 0) = Inl IndexError"
    using mask_accepts_only_28x28[of ?c 40 5 "\<lambda>n. 0"] c by blast
  moreover have "mask ?d 40 5 (\<lambda>n. 0) = Inl AssertionError"
    using mask_accepts_only_28x28[of ?d 40 5 "\<lambda>n. 0"] d by (metis (no_types, lifting))
  moreover have "\<exists>out g'. mask ?e 40 5 (\<lambda>n. 0) = Inr (out, g')"
    using mask_accepts_only_28x28[of ?e 40 5 "\<lambda>n. 0"] e by (metis (no_types, lifting))
  ultimately show ?thesis by blast
qed

lemma channel0_expand_dims:
  assumes "grid28 img"
  shows "channel0 (expand_dims_last img) = Inr img"
proof -
  have l: "length (data img) = 784" and s: "shape img = [28, 28]"
    using assms by (simp_all add: grid28_def)
  have "map (\<lambda>k. data img ! k) [0..<length (data img)] = data img" by (rule map_nth)
  then have "map (\<lambda>k. data img ! k) [0..<784] = data img" using l by simp
  then show ?thesis
    by (simp add: channel0_def expand_dims_last_def s)
qed

text \<open>
  C10: whatever \<open>mask\<close> returns has shape (28, 28). An input of shape (28, 28, c)
  with a channel loses its trailing axis: the result is the masked channel 0. On an
  image of shape (28, 28, 1), as \<open>train\<close> builds with \<open>expand_dims\<close>, the result is
  that of the 28x28 image itself, of shape (28, 28) and not (28, 28, 1).
\<close>

theorem mask_returns_28x28:
  fixes img :: "'a::semiring_1 ndarray"
  shows
  "(\<forall>out g'. mask img w r g = Inr (out, g') \<longrightarrow> shape out = [28, 28] \<and> length (shape out) = 2) \<and>
   (\<forall>c. wf_ndarray img \<and> shape img = [28, 28, c] \<and> 0 < c \<longrightarrow>
      (\<exists>out g'. mask img w r g = Inr (out, g') \<and> shape out = [28, 28] \<and> wf_ndarray out \<and>
         (\<forall>x<28. \<forall>y<28. item2 out x y =
            (if visible g (int x, int y) then data img ! ((x * 28 + y) * c + 0) else 0)))) \<and>
   (wf_ndarray img \<and> shape img = [28, 28] \<longrightarrow>
      shape (expand_dims_last img) = [28, 28, 1] \<and>
      (\<exists>out g'. mask (expand_dims_last img) w r g = Inr (out, g') \<and>
         mask img w r g = Inr (out, g') \<and>
         shape out = [28, 28] \<and> shape out \<noteq> shape (expand_dims_last img)))"
proof (intro conjI allI impI)
  fix out g'
  assume "mask img w r g = Inr (out, g')"
  then have "shape out = [28, 28]" by (rule mask_Inr_shape)
  then show "shape out = [28, 28]" "length (shape out) = 2" by simp_all
next
  fix c
  assume a: "wf_ndarray img \<and> shape img = [28, 28, c] \<and> 0 < c"
  then have s: "shape img = [28, 28, c]" and c: "0 < c" by simp_all
  from channel0_shape[OF s c] obtain sl where
    e: "channel0 img = Inr sl" and sh: "shape sl = [28, 28]" and
    ln: "length (data sl) = 28 * 28" and
    px: "\<forall>x<28. \<forall>y<28. item2 sl x y = data img ! ((x * 28 + y) * c + 0)"
    by blast
  have gs: "grid28 sl" using sh ln by (simp add: grid28_def)
  have eq: "mask img w r g = mask sl w r g" using s e by (simp add: mask_3d)
  from mask_grid28[OF gs, of g w r] obtain m p where
    mk: "mask sl w r g = Inr (multiply sl m, rng_after g)" and
    gm: "grid28 m" and
    cm: "\<forall>i<28. \<forall>j<28. item2 m i j = (if visible g (int i, int j) then 1 else 0)"
    by blast
  have go: "grid28 (multiply sl m)" using gs gm by (rule multiply_grid28)
  have "\<forall>x<28. \<forall>y<28. item2 (multiply sl m) x y =
            (if visible g (int x, int y) then data img ! ((x * 28 + y) * c + 0) else 0)"
  proof (intro allI impI)
    fix x y :: nat
    assume xy: "x < 28" "y < 28"
    have "item2 (multiply sl m) x y = item2 sl x y * item2 m x y"
      using gs gm xy by (rule item2_multiply)
    then show "item2 (multiply sl m) x y =
            (if visible g (int x, int y) then data img ! ((x * 28 + y) * c + 0) else 0)"
      using px cm xy by simp
  qed
  then show "\<exists>out g'. mask img w r g = Inr (out, g') \<and> shape out = [28, 28] \<and> wf_ndarray out \<and>
         (\<forall>x<28. \<forall>y<28. item2 out x y =
            (if visible g (int x, int y) then data img ! ((x * 28 + y) * c + 0) else 0))"
    using eq mk go unfolding grid28_iff by auto
next
  assume a: "wf_ndarray img \<and> shape img = [28, 28]"
  then show "shape (expand_dims_last img) = [28, 28, 1]" by (simp add: expand_dims_last_def)
next
  assume a: "wf_ndarray img \<and> shape img = [28, 28]"
  then have gi: "grid28 img" by (simp add: grid28_iff)
  have s3: "length (shape (expand_dims_last img)) = 3" using a by (simp add: expand_dims_last_def)
  have eq: "mask (expand_dims_last img) w r g = mask img w r g"
    using mask_3d[OF s3, of w r g] channel0_expand_dims[OF gi] by simp
  from mask_28x28_returns[of img w r g] a obtain out g' where
    mk: "mask img w r g = Inr (out, g')" by blast
  then have so: "shape out = [28, 28]" by (rule mask_Inr_shape)
  then have "shape out \<noteq> shape (expand_dims_last img)" using a by (simp add: expand_dims_last_def)
  then show "\<exists>out g'. mask (expand_dims_last img) w r g = Inr (out, g') \<and>
         mask img w r g = Inr (out, g') \<and>
         shape out = [28, 28] \<and> shape out \<noteq> shape (expand_dims_last img)"
    using eq mk so by auto
qed

theorem mask_returns_28x28_witness:
  "wf_ndarray \<lparr>shape = [28, 28], data = replicate 784 (1::int)\<rparr> \<and>
   shape \<lparr>shape = [28, 28], data = replicate 784 (1::int)\<rparr> = [28, 28] \<and>
   shape (expand_dims_last \<lparr>shape = [28, 28], data = replicate 784 (1::int)\<rparr>) = [28, 28, 1] \<and>
   (\<exists>out g'. mask (expand_dims_last \<lparr>shape = [28, 28], data = replicate 784 (1::int)\<rparr>) 40 5 (\<lambda>n. 0)
       = Inr (out, g') \<and> shape out = [28, 28])"
proof -
  let ?img = "\<lparr>shape = [28, 28], data = replicate 784 (1::int)\<rparr>"
  have h: "wf_ndarray ?img \<and> shape ?img = [28, 28]" by (simp add: wf_ndarray_def)
  from mask_returns_28x28[of ?img 40 5 "\<lambda>n. 0"] h
  have "shape (expand_dims_last ?img) = [28, 28, 1] \<and>
      (\<exists>out g'. mask (expand_dims_last ?img) 40 5 (\<lambda>n. 0) = Inr (out, g') \<and>
         mask ?img 40 5 (\<lambda>n. 0) = Inr (out, g') \<and>
         shape out = [28, 28] \<and> shape out \<noteq> shape (expand_dims_last ?img))"
    by blast
  then show ?thesis using h by blast
qed

section \<open>Predicted labels and counts\<close>

lemma is_argmax_iff:
  "is_argmax row p = (p < length row \<and> (\<forall>j<length row. row ! j \<le> row ! p) \<and> (\<forall>j<p. row ! j < row ! p))"
  by (auto simp: is_argmax_def)

lemma ebind_Inr [simp]: "ebind (Inr x) f = f x"
  by (simp add: ebind_def)

lemma ebind_Inl [simp]: "ebind (Inl e) f = Inl e"
  by (simp add: ebind_def)

lemma argmax_from_is_argmax:
  "length pre = i \<Longrightarrow> best < i \<Longrightarrow> pre ! best = v \<Longrightarrow> (\<forall>j<i. pre ! j \<le> v) \<Longrightarrow>
   (\<forall>j<best. pre ! j < v) \<Longrightarrow> is_argmax (pre @ xs) (argmax_from best v i xs)"
proof (induction xs arbitrary: pre best v i)
  case Nil
  then show ?case by (simp add: is_argmax_iff)
next
  case (Cons x xs)
  have app: "pre @ x # xs = (pre @ [x]) @ xs" by simp
  show ?case
  proof (cases "v < x")
    case True
    have "is_argmax ((pre @ [x]) @ xs) (argmax_from i x (Suc i) xs)"
    proof (rule Cons.IH)
      show "length (pre @ [x]) = Suc i" using Cons.prems(1) by simp
      show "i < Suc i" by simp
      show "(pre @ [x]) ! i = x" using Cons.prems(1)[symmetric] by simp
      show "\<forall>j<Suc i. (pre @ [x]) ! j \<le> x"
        using Cons.prems(1,4) True by (auto simp: nth_append less_Suc_eq intro: less_imp_le order_trans)
      show "\<forall>j<i. (pre @ [x]) ! j < x"
        using Cons.prems(1,4) True by (auto simp: nth_append intro: le_less_trans)
    qed
    then show ?thesis using True by (simp only: app argmax_from.simps if_True)
  next
    case False
    have "is_argmax ((pre @ [x]) @ xs) (argmax_from best v (Suc i) xs)"
    proof (rule Cons.IH)
      show "length (pre @ [x]) = Suc i" using Cons.prems(1) by simp
      show "best < Suc i" using Cons.prems(2) by simp
      show "(pre @ [x]) ! best = v" using Cons.prems(1,2,3) by (simp add: nth_append)
      show "\<forall>j<Suc i. (pre @ [x]) ! j \<le> v"
        using Cons.prems(1,4) False by (auto simp: nth_append less_Suc_eq)
      show "\<forall>j<best. (pre @ [x]) ! j < v"
        using Cons.prems(1,2,5) by (auto simp: nth_append)
    qed
    then show ?thesis using False by (simp only: app argmax_from.simps if_False)
  qed
qed

lemma argmax_Inr: "xs \<noteq> [] \<Longrightarrow> \<exists>p. argmax xs = Inr p \<and> is_argmax xs p"
proof -
  assume "xs \<noteq> []"
  then obtain x rest where xs: "xs = x # rest" by (cases xs) auto
  have "is_argmax ([x] @ rest) (argmax_from 0 x 1 rest)"
    by (rule argmax_from_is_argmax) simp_all
  then show ?thesis by (simp add: xs argmax_def)
qed

lemma is_argmax_unique: "is_argmax row p \<Longrightarrow> is_argmax row q \<Longrightarrow> p = q"
  unfolding is_argmax_iff
  by (metis linorder_neqE_nat not_le)

lemma argmax_axis1_Inr:
  "\<forall>row\<in>set rows. row \<noteq> [] \<Longrightarrow>
   \<exists>ps. argmax_axis1 rows = Inr ps \<and> length ps = length rows \<and>
        (\<forall>k<length rows. is_argmax (rows ! k) (ps ! k))"
proof (induction rows)
  case Nil
  then show ?case by simp
next
  case (Cons row rows)
  from Cons.prems have "row \<noteq> []" by simp
  from argmax_Inr[OF this] obtain p where p: "argmax row = Inr p" "is_argmax row p" by blast
  from Cons.IH Cons.prems obtain ps where
    ps: "argmax_axis1 rows = Inr ps" "length ps = length rows"
        "\<forall>k<length rows. is_argmax (rows ! k) (ps ! k)"
    by auto
  have "\<forall>k<length (row # rows). is_argmax ((row # rows) ! k) ((p # ps) ! k)"
    using p(2) ps(3) by (auto simp: nth_Cons split: nat.splits)
  then show ?case using p(1) ps(1,2) by simp
qed

lemma take_rows_Inr:
  "\<forall>k\<in>set ks. k < length a \<Longrightarrow> take_rows a ks = Inr (map ((!) a) ks)"
  by (induction ks) simp_all

lemma argmax_axis1_nth:
  "argmax_axis1 rows = Inr ps \<Longrightarrow>
   length ps = length rows \<and> (\<forall>k<length rows. argmax (rows ! k) = Inr (ps ! k))"
proof (induction rows arbitrary: ps)
  case Nil
  then show ?case by simp
next
  case (Cons row rows)
  from Cons.prems obtain p qs where
    p: "argmax row = Inr p" and qs: "argmax_axis1 rows = Inr qs" and ps: "ps = p # qs"
    by (auto simp: ebind_def split: sum.splits)
  from Cons.IH[OF qs] have l: "length qs = length rows"
    and n: "\<forall>k<length rows. argmax (rows ! k) = Inr (qs ! k)" by simp_all
  have "\<forall>k<length (row # rows). argmax ((row # rows) ! k) = Inr ((p # qs) ! k)"
    using p n by (auto simp: nth_Cons split: nat.splits)
  then show ?case using l ps by simp
qed

lemma argmax_axis1_map_nth:
  assumes "argmax_axis1 rows = Inr ps" and "\<forall>k\<in>set ks. k < length rows"
  shows "argmax_axis1 (map ((!) rows) ks) = Inr (map ((!) ps) ks)"
  using assms(2)
proof (induction ks)
  case Nil
  then show ?case by simp
next
  case (Cons k ks)
  then have "k < length rows" by simp
  then have "argmax (rows ! k) = Inr (ps ! k)" using argmax_axis1_nth[OF assms(1)] by blast
  then show ?case using Cons by simp
qed

lemma np_sum_map2_eq:
  "length ps = length y \<Longrightarrow>
   np_sum (map2 (=) ps y) = length (filter (\<lambda>k. ps ! k = y ! k) [0..<length y])"
proof -
  assume l: "length ps = length y"
  have "map2 (=) ps y = map (\<lambda>k. ps ! k = y ! k) [0..<length y]"
    using l by (intro nth_equalityI) simp_all
  then show ?thesis by (simp add: np_sum_def filter_map comp_def)
qed

lemma np_sum_map_eq:
  "np_sum (map (\<lambda>p. p = i) (map ((!) ps) ks)) = length (filter (\<lambda>k. ps ! k = i) ks)"
  by (simp add: np_sum_def filter_map comp_def)

lemma true_divide_le:
  "a \<le> b \<Longrightarrow> true_divide a b = (if b = 0 then NaN else Finite (real a / real b))"
  by (simp add: true_divide_def)

lemma filter_conj_le: "length (filter (\<lambda>k. P k \<and> Q k) xs) \<le> length (filter P xs)"
proof -
  have "length (filter Q (filter P xs)) \<le> length (filter P xs)"
    by (rule length_filter_le)
  then show ?thesis by simp
qed

lemma masked_accuracy_true_divide:
  "masked_accuracy predicted y =
     true_divide (length (filter (\<lambda>k. predicted ! k = y ! k) [0..<length y])) (length y)"
proof -
  have "length (filter (\<lambda>k. predicted ! k = y ! k) [0..<length y]) \<le> length [0..<length y]"
    by (rule length_filter_le)
  then have "length (filter (\<lambda>k. predicted ! k = y ! k) [0..<length y]) \<le> length y" by simp
  then show ?thesis by (simp only: true_divide_le masked_accuracy_def)
qed

lemma class_recall_true_divide:
  "class_recall predicted y i =
     true_divide (length (filter (\<lambda>k. y ! k = i \<and> predicted ! k = i) [0..<length y]))
                 (length (filter (\<lambda>k. y ! k = i) [0..<length y]))"
  by (simp only: true_divide_le[OF filter_conj_le] class_recall_def)

lemma recall_of_Inr:
  assumes "argmax_axis1 cls = Inr ps" and "length cls = length y"
  shows "recall_of cls y i = Inr (class_recall ps y i)"
proof -
  let ?ks = "where_eq y i"
  have r: "\<forall>k\<in>set ?ks. k < length cls" using assms(2) by (simp add: where_eq_def)
  have t: "take_rows cls ?ks = Inr (map ((!) cls) ?ks)" using r by (rule take_rows_Inr)
  have a: "argmax_axis1 (map ((!) cls) ?ks) = Inr (map ((!) ps) ?ks)"
    using assms(1) r by (rule argmax_axis1_map_nth)
  have c: "length (filter (\<lambda>k. ps ! k = i) ?ks) =
           length (filter (\<lambda>k. y ! k = i \<and> ps ! k = i) [0..<length y])"
    by (simp add: where_eq_def)
  have n: "np_sum (map (\<lambda>p. p = i) (map ((!) ps) ?ks)) =
           length (filter (\<lambda>k. y ! k = i \<and> ps ! k = i) [0..<length y])"
    by (simp only: np_sum_map_eq c)
  have "recall_of cls y i = Inr (true_divide
          (length (filter (\<lambda>k. y ! k = i \<and> ps ! k = i) [0..<length y])) (length ?ks))"
    unfolding recall_of_def Let_def by (simp only: t a ebind_Inr n)
  then show ?thesis by (simp add: class_recall_true_divide where_eq_def)
qed

lemma recalls_loop_Inr:
  assumes "argmax_axis1 cls = Inr ps" and "length cls = length y"
  shows "recalls_loop cls y cs acc = Inr (acc @ map (class_recall ps y) cs)"
proof (induction cs arbitrary: acc)
  case Nil
  then show ?case by simp
next
  case (Cons c cs)
  then show ?case by (simp add: recall_of_Inr[OF assms])
qed

lemma test_masked_accuracy_Inr:
  assumes "argmax_axis1 (snd (discriminator_predict K (discriminator s) (X_test_masked s))) = Inr ps"
    and "length (snd (discriminator_predict K (discriminator s) (X_test_masked s))) = length (y_test s)"
  shows "test_masked_accuracy K epoch s =
     Inr (s\<lparr>accuracy_scores := accuracy_scores s @ [(masked_accuracy ps (y_test s), epoch)],
            recall_scores := recall_scores s @ [(map (class_recall ps (y_test s)) [0..<10], epoch)],
            calls := calls s @ [DiscriminatorPredict (X_test_masked s),
                                SaveFig ''images/accuracy.png'', SaveFig ''images/recall.png'']\<rparr>)"
proof -
  have l: "length ps = length (y_test s)"
    using argmax_axis1_nth[OF assms(1)] assms(2) by simp
  show ?thesis
    unfolding test_masked_accuracy_def Let_def
    by (simp add: called_def assms(1) recalls_loop_Inr[OF assms]
        np_sum_map2_eq[OF l] masked_accuracy_true_divide)
qed

section \<open>One epoch of training\<close>

lemma mask_default_returns:
  "shape a = [28, 28] \<or> shape a = [28, 28, 1] \<Longrightarrow> \<exists>m g'. mask_default a g = Inr (m, g')"
proof (elim disjE)
  assume "shape a = [28, 28]"
  then show ?thesis unfolding mask_default_def by (rule mask_28x28_returns)
next
  assume s: "shape a = [28, 28, 1]"
  from channel0_shape[OF s] obtain sl where c: "channel0 a = Inr sl" and sh: "shape sl = [28, 28]"
    by auto
  have "mask a (int RANDOM_WALK_LENGTH) VISIBLE_RADIUS g = mask sl (int RANDOM_WALK_LENGTH) VISIBLE_RADIUS g"
    using s c by (simp add: mask_3d)
  then show ?thesis unfolding mask_default_def using mask_28x28_returns[OF sh] by simp
qed

lemma mask_all_Inr:
  "\<forall>a\<in>set imgs. shape a = [28, 28] \<or> shape a = [28, 28, 1] \<Longrightarrow>
   \<exists>ms g'. mask_all imgs g = Inr (ms, g') \<and> length ms = length imgs"
proof (induction imgs arbitrary: g)
  case Nil
  then show ?case by simp
next
  case (Cons a imgs)
  from Cons.prems have "shape a = [28, 28] \<or> shape a = [28, 28, 1]" by simp
  from mask_default_returns[OF this, of g] obtain m g1 where m: "mask_default a g = Inr (m, g1)"
    by blast
  from Cons.IH[of g1] Cons.prems obtain ms g2 where
    ms: "mask_all imgs g1 = Inr (ms, g2)" "length ms = length imgs" by auto
  show ?case using m ms by simp
qed

lemma np_random_draws_length: "length (fst (np_random_draws k n g)) = k"
  by (induction k arbitrary: g) (simp_all add: split_beta)

lemma np_random_draws_range: "0 < n \<Longrightarrow> i \<in> set (fst (np_random_draws k n g)) \<Longrightarrow> i < n"
  by (induction k arbitrary: g) (auto simp: split_beta)

lemma np_random_randint_Inr:
  "0 < n \<Longrightarrow> \<exists>idx g'. np_random_randint n k g = Inr (idx, g') \<and> length idx = k \<and>
                     (\<forall>i\<in>set idx. i < n)"
proof -
  assume n: "0 < n"
  obtain idx g' where d: "np_random_draws k n g = (idx, g')" by (cases "np_random_draws k n g")
  have "length idx = k" using np_random_draws_length[of k n g] d by simp
  moreover have "\<forall>i\<in>set idx. i < n" using np_random_draws_range[OF n, of _ k g] d by simp
  ultimately show ?thesis using n d by (simp add: np_random_randint_def)
qed

lemma ACGAN_init_ready:
  assumes "mnist_ok mnist"
  shows "\<exists>s. ACGAN_init gw dw mnist py np = Inr s \<and> ready s \<and>
             accuracy_scores s = [] \<and> recall_scores s = [] \<and> calls s = [] \<and>
             X_train s = fst (fst mnist) \<and> y_train s = snd (fst mnist) \<and>
             X_test s = fst (snd mnist) \<and> y_test s = snd (snd mnist) \<and>
             generator s = gw \<and> discriminator s = dw \<and>
             (\<exists>py'. mask_all (fst (snd mnist)) py = Inr (X_test_masked s, py'))"
proof -
  obtain Xtr ytr Xte yte where m: "mnist = ((Xtr, ytr), (Xte, yte))"
    by (metis prod.collapse)
  have ok: "(\<forall>a\<in>set Xtr. grid28 a)" "length ytr = length Xtr" "0 < length Xtr"
        "(\<forall>a\<in>set Xte. grid28 a)" "length yte = length Xte" "100 \<le> length Xte"
    using assms by (simp_all add: mnist_ok_def m)
  have "\<forall>a\<in>set Xte. shape a = [28, 28] \<or> shape a = [28, 28, 1]"
    using ok(4) by (simp add: grid28_def)
  from mask_all_Inr[OF this, of py] obtain ms py' where
    ms: "mask_all Xte py = Inr (ms, py')" "length ms = length Xte" by blast
  show ?thesis
    using ok ms by (simp add: ACGAN_init_def m ready_def)
qed

lemma add_halved_Inr:
  "length a = length b \<Longrightarrow>
   \<exists>d. add_halved a b = Inr d \<and> length d = length a \<and>
       (\<forall>k<length a. d ! k = 0.5 * (a ! k + b ! k))"
  by (simp add: add_halved_def)

lemma train_step_Inr:
  assumes K: "keras_ok K"
    and X: "0 < length X" "length y = length X" "\<forall>a\<in>set X. shape a = [28, 28, 1]"
    and c: "discriminator_compiled s" "\<not> combined_compiled s"
  shows "\<exists>idx np' imgs masked_imgs py' gen_imgs img_labels d_loss_real dw1 d_loss_fake dw2
          g_loss gw3 d_loss.
      np_random_randint (length X) batch_size (np_random s) = Inr (idx, np') \<and>
      length idx = batch_size \<and> (\<forall>i\<in>set idx. i < length X) \<and>
      imgs = map ((!) X) idx \<and>
      mask_all imgs (py_random s) = Inr (masked_imgs, py') \<and>
      length masked_imgs = batch_size \<and>
      gen_imgs = generator_predict K (generator s) masked_imgs \<and>
      img_labels = map ((!) y) idx \<and>
      discriminator_train_on_batch K True (discriminator s) imgs valid img_labels
        = (d_loss_real, dw1) \<and>
      discriminator_train_on_batch K True dw1 gen_imgs fake img_labels = (d_loss_fake, dw2) \<and>
      combined_train_on_batch K False (generator s) dw2 masked_imgs valid img_labels
        = (g_loss, gw3, dw2) \<and>
      length d_loss = 5 \<and> (\<forall>k<5. d_loss ! k = 0.5 * (d_loss_real ! k + d_loss_fake ! k)) \<and>
      train_step K batch_size X y valid fake epoch s =
        Inr (s\<lparr>generator := gw3, discriminator := dw2, py_random := py', np_random := np',
               calls := calls s @
                 [NpRandomRandint 0 (int (length X)) batch_size,
                  GeneratorPredict masked_imgs,
                  DiscriminatorTrainOnBatch True imgs valid img_labels,
                  DiscriminatorTrainOnBatch True gen_imgs fake img_labels,
                  CombinedTrainOnBatch False masked_imgs valid img_labels,
                  Print epoch (d_loss ! 0) (100 * d_loss ! 3) (100 * d_loss ! 4) (g_loss ! 0)]\<rparr>)"
proof -
  from np_random_randint_Inr[OF X(1), of batch_size "np_random s"] obtain idx np' where
    r: "np_random_randint (length X) batch_size (np_random s) = Inr (idx, np')" and
    li: "length idx = batch_size" and ri: "\<forall>i\<in>set idx. i < length X"
    by blast
  define imgs where "imgs = map ((!) X) idx"
  have ti: "take_rows X idx = Inr imgs" unfolding imgs_def using ri by (rule take_rows_Inr)
  have "\<forall>a\<in>set imgs. shape a = [28, 28] \<or> shape a = [28, 28, 1]"
    using X(3) ri by (auto simp: imgs_def)
  from mask_all_Inr[OF this, of "py_random s"] obtain masked_imgs py' where
    m: "mask_all imgs (py_random s) = Inr (masked_imgs, py')" and
    lm: "length masked_imgs = length imgs" by blast
  define gen_imgs where "gen_imgs = generator_predict K (generator s) masked_imgs"
  define img_labels where "img_labels = map ((!) y) idx"
  have tl: "take_rows y idx = Inr img_labels"
    unfolding img_labels_def using ri X(2) by (intro take_rows_Inr) simp
  obtain d_loss_real dw1 where
    d1: "discriminator_train_on_batch K True (discriminator s) imgs valid img_labels
           = (d_loss_real, dw1)"
    by (metis prod.collapse)
  obtain d_loss_fake dw2 where
    d2: "discriminator_train_on_batch K True dw1 gen_imgs fake img_labels = (d_loss_fake, dw2)"
    by (metis prod.collapse)
  obtain g_loss gw3 dw3 where
    g: "combined_train_on_batch K False (generator s) dw2 masked_imgs valid img_labels
          = (g_loss, gw3, dw3)"
    by (metis prod.collapse)
  have "snd (snd (combined_train_on_batch K False (generator s) dw2 masked_imgs valid img_labels)) = dw2"
    using K unfolding keras_ok_def by blast
  then have dw3: "dw3 = dw2" using g by simp
  have l1: "length d_loss_real = 5"
    using K d1 unfolding keras_ok_def by (metis fst_conv)
  have l2: "length d_loss_fake = 5"
    using K d2 unfolding keras_ok_def by (metis fst_conv)
  have l3: "length g_loss = 3"
    using K g unfolding keras_ok_def by (metis fst_conv)
  from add_halved_Inr[of d_loss_real d_loss_fake] l1 l2 obtain d_loss where
    ah: "add_halved d_loss_real d_loss_fake = Inr d_loss" and ld: "length d_loss = 5" and
    dv: "\<forall>k<5. d_loss ! k = 0.5 * (d_loss_real ! k + d_loss_fake ! k)"
    by auto
  have gi: "getitem d_loss 0 = Inr (d_loss ! 0)" "getitem d_loss 3 = Inr (d_loss ! 3)"
    "getitem d_loss 4 = Inr (d_loss ! 4)" "getitem g_loss 0 = Inr (g_loss ! 0)"
    using ld l3 by (simp_all add: getitem_def)
  have run: "train_step K batch_size X y valid fake epoch s =
        Inr (s\<lparr>generator := gw3, discriminator := dw2, py_random := py', np_random := np',
               calls := calls s @
                 [NpRandomRandint 0 (int (length X)) batch_size,
                  GeneratorPredict masked_imgs,
                  DiscriminatorTrainOnBatch True imgs valid img_labels,
                  DiscriminatorTrainOnBatch True gen_imgs fake img_labels,
                  CombinedTrainOnBatch False masked_imgs valid img_labels,
                  Print epoch (d_loss ! 0) (100 * d_loss ! 3) (100 * d_loss ! 4) (g_loss ! 0)]\<rparr>)"
    unfolding train_step_def
    using c
    by (simp add: r ti m tl called_def Let_def gen_imgs_def[symmetric] d1 d2 g dw3 ah gi)
  show ?thesis
    apply (rule exI[of _ idx], rule exI[of _ np'], rule exI[of _ imgs], rule exI[of _ masked_imgs])
    apply (rule exI[of _ py'], rule exI[of _ gen_imgs], rule exI[of _ img_labels])
    apply (rule exI[of _ d_loss_real], rule exI[of _ dw1], rule exI[of _ d_loss_fake])
    apply (rule exI[of _ dw2], rule exI[of _ g_loss], rule exI[of _ gw3], rule exI[of _ d_loss])
    using r li ri imgs_def m lm gen_imgs_def img_labels_def d1 d2 g dw3 ld dv run
    by simp
qed

lemma same_setup_refl: "same_setup s s"
  by (simp add: same_setup_def)

lemma same_setup_trans: "same_setup a b \<Longrightarrow> same_setup b c \<Longrightarrow> same_setup a c"
  by (simp add: same_setup_def)

lemma ready_same_setup: "ready s \<Longrightarrow> same_setup s s' \<Longrightarrow> ready s'"
  by (simp add: ready_def same_setup_def)

lemma keras_ok_generator: "keras_ok K \<Longrightarrow> length (generator_predict K gw xs) = length xs"
  by (simp add: keras_ok_def)

lemma predictions_Inr:
  assumes "keras_ok K" and "ready s"
  shows "\<exists>ps. argmax_axis1 (snd (discriminator_predict K (discriminator s) (X_test_masked s))) = Inr ps \<and>
          length ps = length (y_test s) \<and>
          length (snd (discriminator_predict K (discriminator s) (X_test_masked s))) = length (y_test s) \<and>
          (\<forall>k<length (y_test s).
             is_argmax (snd (discriminator_predict K (discriminator s) (X_test_masked s)) ! k) (ps ! k))"
proof -
  let ?cls = "snd (discriminator_predict K (discriminator s) (X_test_masked s))"
  have l: "length ?cls = length (X_test_masked s)"
    and r: "\<forall>row\<in>set ?cls. length row = num_classes"
    using assms(1) unfolding keras_ok_def by blast+
  have ne: "\<forall>row\<in>set ?cls. row \<noteq> []" using r by (auto simp: num_classes_def)
  have ly: "length ?cls = length (y_test s)" using l assms(2) by (simp add: ready_def)
  from argmax_axis1_Inr[OF ne] obtain ps where
    "argmax_axis1 ?cls = Inr ps" "length ps = length ?cls"
    "\<forall>k<length ?cls. is_argmax (?cls ! k) (ps ! k)" by blast
  then show ?thesis using ly by auto
qed

lemma sample_images_Inr:
  assumes "keras_ok K" and "ready s"
  shows "\<exists>masked_imgs py'.
      mask_all (take 100 (X_test s)) (py_random s) = Inr (masked_imgs, py') \<and>
      sample_images K epoch s =
        Inr (s\<lparr>py_random := py',
               calls := calls s @ [GeneratorPredict masked_imgs, SaveSamples epoch]\<rparr>)"
proof -
  have "\<forall>a\<in>set (take 100 (X_test s)). shape a = [28, 28] \<or> shape a = [28, 28, 1]"
    using assms(2) by (auto simp: ready_def grid28_def dest: in_set_takeD)
  from mask_all_Inr[OF this, of "py_random s"] obtain ms py' where
    m: "mask_all (take 100 (X_test s)) (py_random s) = Inr (ms, py')" and
    l: "length ms = length (take 100 (X_test s))" by blast
  have "length ms = 100" using l assms(2) by (simp add: ready_def)
  moreover have "length (generator_predict K (generator s) ms) = length ms"
    using assms(1) by (rule keras_ok_generator)
  ultimately have "\<not> length (generator_predict K (generator s) ms) < 100" by simp
  then show ?thesis
    using m by (simp add: sample_images_def called_def Let_def)
qed

lemma at_save_interval_Inr:
  assumes K: "keras_ok K" and r: "ready s" and si: "sample_interval \<noteq> 0"
    and ps: "argmax_axis1 (snd (discriminator_predict K (discriminator s) (X_test_masked s))) = Inr ps"
  shows "\<exists>masked_imgs py'.
      mask_all (take 100 (X_test s)) (py_random s) = Inr (masked_imgs, py') \<and>
      at_save_interval K sample_interval epoch s =
        Inr (if int epoch mod sample_interval = 0
             then s\<lparr>py_random := py',
                    accuracy_scores := accuracy_scores s @ [(masked_accuracy ps (y_test s), epoch)],
                    recall_scores := recall_scores s @
                       [(map (class_recall ps (y_test s)) [0..<10], epoch)],
                    calls := calls s @
                       [SaveModel ''generator'', SaveModel ''discriminator'',
                        GeneratorPredict masked_imgs, SaveSamples epoch,
                        DiscriminatorPredict (X_test_masked s),
                        SaveFig ''images/accuracy.png'', SaveFig ''images/recall.png'']\<rparr>
             else s)"
proof -
  let ?s1 = "save_model s"
  have r1: "ready ?s1" using r by (simp add: ready_def save_model_def called_def)
  from sample_images_Inr[OF K r1, of epoch] obtain ms py' where
    m: "mask_all (take 100 (X_test s)) (py_random s) = Inr (ms, py')" and
    sm: "sample_images K epoch ?s1 =
        Inr (?s1\<lparr>py_random := py',
               calls := calls ?s1 @ [GeneratorPredict ms, SaveSamples epoch]\<rparr>)"
    by (auto simp: save_model_def called_def)
  let ?s2 = "?s1\<lparr>py_random := py', calls := calls ?s1 @ [GeneratorPredict ms, SaveSamples epoch]\<rparr>"
  have ps2: "argmax_axis1 (snd (discriminator_predict K (discriminator ?s2) (X_test_masked ?s2))) = Inr ps"
    using ps by (simp add: save_model_def called_def)
  have l2: "length (snd (discriminator_predict K (discriminator ?s2) (X_test_masked ?s2))) = length (y_test ?s2)"
    using predictions_Inr[OF K r] by (auto simp: save_model_def called_def)
  have "at_save_interval K sample_interval epoch s =
        (if int epoch mod sample_interval = 0 then test_masked_accuracy K epoch ?s2 else Inr s)"
    using si by (simp add: at_save_interval_def sm)
  also have "\<dots> = Inr (if int epoch mod sample_interval = 0
             then s\<lparr>py_random := py',
                    accuracy_scores := accuracy_scores s @ [(masked_accuracy ps (y_test s), epoch)],
                    recall_scores := recall_scores s @
                       [(map (class_recall ps (y_test s)) [0..<10], epoch)],
                    calls := calls s @
                       [SaveModel ''generator'', SaveModel ''discriminator'',
                        GeneratorPredict ms, SaveSamples epoch,
                        DiscriminatorPredict (X_test_masked s),
                        SaveFig ''images/accuracy.png'', SaveFig ''images/recall.png'']\<rparr>
             else s)"
    by (simp add: test_masked_accuracy_Inr[OF ps2 l2]) (simp add: save_model_def called_def)
  finally show ?thesis using m by blast
qed

lemma train_loop_append:
  "train_loop K b si X y v f (es @ fs) s =
   ebind (train_loop K b si X y v f es s) (train_loop K b si X y v f fs)"
proof (induction es arbitrary: s)
  case Nil
  then show ?case by simp
next
  case (Cons e es)
  show ?case
  proof (cases "train_epoch K b si X y v f e s")
    case (Inl err)
    then show ?thesis by simp
  next
    case (Inr s')
    then show ?thesis using Cons.IH[of s'] by simp
  qed
qed

lemma train_loop_single:
  "train_loop K b si X y v f [n] = train_epoch K b si X y v f n"
  by (rule ext) (simp add: ebind_def split: sum.splits)

lemma train_Suc:
  "train K (Suc n) b si s =
   ebind (train K n b si s)
     (train_epoch K b si (map (\<lambda>a. expand_dims_last (scale_pixels a)) (X_train s)) (y_train s)
        (replicate b 1) (replicate b 0) n)"
  by (simp add: train_def train_loop_append train_loop_single Let_def)

lemma train_batch_shapes:
  "ready s \<Longrightarrow> \<forall>a\<in>set (map (\<lambda>a. expand_dims_last (scale_pixels a)) (X_train s)). shape a = [28, 28, 1]"
  by (auto simp: ready_def grid28_def expand_dims_last_def scale_pixels_def)

lemma epoch_facts:
  assumes K: "keras_ok K" and r: "ready s1" and si: "sample_interval \<noteq> 0"
    and X: "X = map (\<lambda>a. expand_dims_last (scale_pixels a)) (X_train s1)" "y = y_train s1"
  shows "\<exists>st s2.
      train_step K b X y v f n s1 = Inr st \<and> same_setup s1 st \<and> ready st \<and>
      accuracy_scores st = accuracy_scores s1 \<and> recall_scores st = recall_scores s1 \<and>
      at_save_interval K sample_interval n st = Inr s2 \<and> same_setup s1 s2 \<and> ready s2 \<and>
      generator s2 = generator st \<and> discriminator s2 = discriminator st \<and>
      train_epoch K b sample_interval X y v f n s1 = Inr s2"
proof -
  have x1: "0 < length X" "length y = length X" using r by (simp_all add: X ready_def)
  have x2: "\<forall>a\<in>set X. shape a = [28, 28, 1]" unfolding X using r by (rule train_batch_shapes)
  have c: "discriminator_compiled s1" "\<not> combined_compiled s1" using r by (simp_all add: ready_def)
  from train_step_Inr[OF K x1 x2 c, of b v f n] obtain st where
    st: "train_step K b X y v f n s1 = Inr st" and
    ss: "same_setup s1 st" and
    sc: "accuracy_scores st = accuracy_scores s1" "recall_scores st = recall_scores s1"
    by (auto simp: same_setup_def)
  have rt: "ready st" using r ss by (rule ready_same_setup)
  from predictions_Inr[OF K rt] obtain ps where
    ps: "argmax_axis1 (snd (discriminator_predict K (discriminator st) (X_test_masked st))) = Inr ps"
    by blast
  from at_save_interval_Inr[OF K rt si ps, of n] obtain s2 where
    s2: "at_save_interval K sample_interval n st = Inr s2" and
    s3: "same_setup st s2" "generator s2 = generator st" "discriminator s2 = discriminator st"
    by (auto simp: same_setup_def)
  have s4: "same_setup s1 s2" using ss s3(1) by (rule same_setup_trans)
  have "ready s2" using r s4 by (rule ready_same_setup)
  moreover have "train_epoch K b sample_interval X y v f n s1 = Inr s2"
    by (simp add: train_epoch_def st s2)
  ultimately show ?thesis using st ss rt sc s2 s4 s3 by blast
qed

lemma train_Inr:
  assumes K: "keras_ok K" and r: "ready s0" and si: "sample_interval \<noteq> 0"
  shows "\<exists>s. train K n b sample_interval s0 = Inr s \<and> same_setup s0 s \<and> ready s"
proof (induction n)
  case 0
  show ?case using r by (simp add: train_def same_setup_refl)
next
  case (Suc n)
  then obtain s1 where s1: "train K n b sample_interval s0 = Inr s1" "same_setup s0 s1" "ready s1"
    by blast
  have X: "map (\<lambda>a. expand_dims_last (scale_pixels a)) (X_train s0) =
           map (\<lambda>a. expand_dims_last (scale_pixels a)) (X_train s1)" "y_train s0 = y_train s1"
    using s1(2) by (simp_all add: same_setup_def)
  from epoch_facts[OF K s1(3) si X, of b "replicate b 1" "replicate b 0" n] obtain s2 where
    s2: "train_epoch K b sample_interval (map (\<lambda>a. expand_dims_last (scale_pixels a)) (X_train s0))
           (y_train s0) (replicate b 1) (replicate b 0) n s1 = Inr s2"
      "same_setup s1 s2" "ready s2"
    by blast
  have "train K (Suc n) b sample_interval s0 = Inr s2"
    by (simp add: train_Suc s1(1) s2(1))
  moreover have "same_setup s0 s2" using s1(2) s2(2) by (rule same_setup_trans)
  ultimately show ?case using s2(3) by blast
qed

lemma epoch_run:
  assumes K: "keras_ok K" and m: "mnist_ok mnist" and si: "sample_interval \<noteq> 0"
  shows "\<exists>s0 s1 st s2 py'.
     ACGAN_init gw dw mnist py np = Inr s0 \<and> ready s0 \<and>
     mask_all (fst (snd mnist)) py = Inr (X_test_masked s0, py') \<and>
     X_train s0 = fst (fst mnist) \<and> y_train s0 = snd (fst mnist) \<and>
     X_test s0 = fst (snd mnist) \<and> y_test s0 = snd (snd mnist) \<and>
     accuracy_scores s0 = [] \<and> recall_scores s0 = [] \<and> calls s0 = [] \<and>
     train K n b sample_interval s0 = Inr s1 \<and> same_setup s0 s1 \<and> ready s1 \<and>
     train_step K b (map (\<lambda>a. expand_dims_last (scale_pixels a)) (X_train s0)) (y_train s0)
        (replicate b 1) (replicate b 0) n s1 = Inr st \<and>
     same_setup s0 st \<and> ready st \<and>
     accuracy_scores st = accuracy_scores s1 \<and> recall_scores st = recall_scores s1 \<and>
     at_save_interval K sample_interval n st = Inr s2 \<and> same_setup s0 s2 \<and>
     generator s2 = generator st \<and> discriminator s2 = discriminator st \<and>
     train K (Suc n) b sample_interval s0 = Inr s2"
proof -
  from ACGAN_init_ready[OF m, of gw dw py np] obtain s0 py' where
    i: "ACGAN_init gw dw mnist py np = Inr s0" "ready s0"
       "mask_all (fst (snd mnist)) py = Inr (X_test_masked s0, py')"
       "X_train s0 = fst (fst mnist)" "y_train s0 = snd (fst mnist)"
       "X_test s0 = fst (snd mnist)" "y_test s0 = snd (snd mnist)"
       "accuracy_scores s0 = []" "recall_scores s0 = []" "calls s0 = []"
    by blast
  from train_Inr[OF K i(2) si, of n b] obtain s1 where
    s1: "train K n b sample_interval s0 = Inr s1" "same_setup s0 s1" "ready s1" by blast
  have X: "map (\<lambda>a. expand_dims_last (scale_pixels a)) (X_train s0) =
           map (\<lambda>a. expand_dims_last (scale_pixels a)) (X_train s1)" "y_train s0 = y_train s1"
    using s1(2) by (simp_all add: same_setup_def)
  from epoch_facts[OF K s1(3) si X, of b "replicate b 1" "replicate b 0" n] obtain st s2 where
    e: "train_step K b (map (\<lambda>a. expand_dims_last (scale_pixels a)) (X_train s0)) (y_train s0)
          (replicate b 1) (replicate b 0) n s1 = Inr st"
       "same_setup s1 st" "ready st"
       "accuracy_scores st = accuracy_scores s1" "recall_scores st = recall_scores s1"
       "at_save_interval K sample_interval n st = Inr s2" "same_setup s1 s2"
       "generator s2 = generator st" "discriminator s2 = discriminator st"
       "train_epoch K b sample_interval (map (\<lambda>a. expand_dims_last (scale_pixels a)) (X_train s0))
          (y_train s0) (replicate b 1) (replicate b 0) n s1 = Inr s2"
    by blast
  have t: "train K (Suc n) b sample_interval s0 = Inr s2"
    by (simp add: train_Suc s1(1) e(10))
  have ss: "same_setup s0 st" "same_setup s0 s2"
    using s1(2) e(2,7) by (blast intro: same_setup_trans)+
  show ?thesis
    apply (rule exI[of _ s0], rule exI[of _ s1], rule exI[of _ st], rule exI[of _ s2])
    apply (rule exI[of _ py'])
    using i s1 e(1,3,4,5,6,8,9) t ss by simp
qed

lemma mask_all_nth:
  "mask_all imgs g = Inr (ms, g') \<Longrightarrow>
   length ms = length imgs \<and>
   (\<forall>j<length imgs. \<exists>g1 g2. mask_default (imgs ! j) g1 = Inr (ms ! j, g2))"
proof (induction imgs arbitrary: g ms)
  case Nil
  then show ?case by simp
next
  case (Cons a imgs)
  from Cons.prems obtain m g1 rest where
    m: "mask_default a g = Inr (m, g1)" and
    r: "mask_all imgs g1 = Inr (rest, g')" and ms: "ms = m # rest"
    by (auto simp: ebind_def split: sum.splits prod.splits)
  from Cons.IH[OF r] have l: "length rest = length imgs"
    and n: "\<forall>j<length imgs. \<exists>g1 g2. mask_default (imgs ! j) g1 = Inr (rest ! j, g2)"
    by simp_all
  have "\<forall>j<length (a # imgs). \<exists>g1 g2. mask_default ((a # imgs) ! j) g1 = Inr ((m # rest) ! j, g2)"
  proof (intro allI impI)
    fix j assume j: "j < length (a # imgs)"
    show "\<exists>g1 g2. mask_default ((a # imgs) ! j) g1 = Inr ((m # rest) ! j, g2)"
    proof (cases j)
      case 0
      then show ?thesis using m by auto
    next
      case (Suc i)
      then have "i < length imgs" using j by simp
      then show ?thesis using n Suc by simp
    qed
  qed
  then show ?case using l ms by simp
qed

lemma stub_keras_ok: "keras_ok stub_keras"
  by (simp add: keras_ok_def stub_keras_def num_classes_def)

lemma toy_mnist_ok: "mnist_ok toy_mnist"
  by (simp add: mnist_ok_def toy_mnist_def blank_def grid28_def)

lemma train_0: "train K 0 b si s = Inr s"
  by (simp add: train_def)

lemma ACGAN_init_fields:
  "ACGAN_init gw dw mnist py np = Inr s \<Longrightarrow>
   accuracy_scores s = [] \<and> recall_scores s = [] \<and> calls s = [] \<and>
   y_test s = snd (snd mnist) \<and> length (X_test_masked s) = length (fst (snd mnist))"
proof -
  assume a: "ACGAN_init gw dw mnist py np = Inr s"
  obtain Xtr ytr Xte yte where m: "mnist = ((Xtr, ytr), (Xte, yte))"
    by (metis prod.collapse)
  from a obtain ms py' where
    ms: "mask_all Xte py = Inr (ms, py')" and
    s: "accuracy_scores s = []" "recall_scores s = []" "calls s = []" "y_test s = yte"
       "X_test_masked s = ms"
    by (auto simp: ACGAN_init_def m ebind_def split: sum.splits prod.splits)
  from mask_all_nth[OF ms] have "length ms = length Xte" by simp
  then show ?thesis using s by (simp add: m)
qed

lemma is_argmax_uniform: "is_argmax (replicate 10 c) p \<Longrightarrow> p = 0"
proof (rule ccontr)
  assume a: "is_argmax (replicate 10 c) p" and "p \<noteq> 0"
  then have "0 < p" "p < 10" by (simp_all add: is_argmax_iff)
  with a have "replicate 10 c ! 0 < replicate 10 c ! p" unfolding is_argmax_iff by blast
  then show False using \<open>p < 10\<close> by simp
qed

lemma stub_predictions:
  assumes "length xs = 100"
    and "\<forall>k<100. is_argmax (snd (discriminator_predict stub_keras dw xs) ! k) (predicted ! k)"
  shows "\<forall>k<100. predicted ! k = 0"
proof (intro allI impI)
  fix k :: nat
  assume k: "k < 100"
  have "snd (discriminator_predict stub_keras dw xs) ! k = replicate 10 (1 / 10)"
    using k assms(1) by (simp add: stub_keras_def)
  then have "is_argmax (replicate 10 (1 / 10)) (predicted ! k)" using assms(2) k by auto
  then show "predicted ! k = 0" by (rule is_argmax_uniform)
qed

lemma filter_all: "\<forall>x\<in>set xs. P x \<Longrightarrow> filter P xs = xs"
  by (induction xs) simp_all

lemma filter_none: "\<forall>x\<in>set xs. \<not> P x \<Longrightarrow> filter P xs = []"
  by (induction xs) simp_all

section \<open>What is recorded, and in which order\<close>

lemma accuracy_appended:
  assumes "keras_ok K" and "mnist_ok mnist" and "sample_interval \<noteq> 0"
  shows
  "(\<forall>s e. ready s \<longrightarrow>
      (\<exists>predicted s'.
         argmax_axis1 (snd (discriminator_predict K (discriminator s) (X_test_masked s)))
           = Inr predicted \<and>
         test_masked_accuracy K e s = Inr s' \<and>
         accuracy_scores s' = accuracy_scores s @ [(masked_accuracy predicted (y_test s), e)])) \<and>
   (\<exists>s0 s1 s2 predicted py'.
      ACGAN_init gw dw mnist py np = Inr s0 \<and>
      train K epoch batch_size sample_interval s0 = Inr s1 \<and>
      train K (Suc epoch) batch_size sample_interval s0 = Inr s2 \<and>
      mask_all (fst (snd mnist)) py = Inr (X_test_masked s2, py') \<and>
      y_test s2 = snd (snd mnist) \<and>
      argmax_axis1 (snd (discriminator_predict K (discriminator s2) (X_test_masked s2)))
        = Inr predicted \<and>
      length predicted = length (y_test s2) \<and>
      (\<forall>k<length (y_test s2).
         is_argmax (snd (discriminator_predict K (discriminator s2) (X_test_masked s2)) ! k)
           (predicted ! k)) \<and>
      accuracy_scores s2 = accuracy_scores s1 @
        (if int epoch mod sample_interval = 0
         then [(true_divide
                  (length (filter (\<lambda>k. predicted ! k = y_test s2 ! k) [0..<length (y_test s2)]))
                  (length (y_test s2)), epoch)]
         else []))"
proof (rule conjI)
  show "\<forall>s e. ready s \<longrightarrow>
      (\<exists>predicted s'.
         argmax_axis1 (snd (discriminator_predict K (discriminator s) (X_test_masked s)))
           = Inr predicted \<and>
         test_masked_accuracy K e s = Inr s' \<and>
         accuracy_scores s' = accuracy_scores s @ [(masked_accuracy predicted (y_test s), e)])"
  proof (intro allI impI)
    fix s :: "('a, 'b) acgan" and e :: nat
    assume r: "ready s"
    from predictions_Inr[OF assms(1) r] obtain ps where
      ps: "argmax_axis1 (snd (discriminator_predict K (discriminator s) (X_test_masked s))) = Inr ps"
      and l: "length (snd (discriminator_predict K (discriminator s) (X_test_masked s))) = length (y_test s)"
      by blast
    show "\<exists>predicted s'.
         argmax_axis1 (snd (discriminator_predict K (discriminator s) (X_test_masked s)))
           = Inr predicted \<and>
         test_masked_accuracy K e s = Inr s' \<and>
         accuracy_scores s' = accuracy_scores s @ [(masked_accuracy predicted (y_test s), e)]"
      using ps test_masked_accuracy_Inr[OF ps l, of e] by simp
  qed
next
  from epoch_run[OF assms, of gw dw py np epoch batch_size] obtain s0 s1 st s2 py' where
    i: "ACGAN_init gw dw mnist py np = Inr s0"
       "mask_all (fst (snd mnist)) py = Inr (X_test_masked s0, py')"
       "y_test s0 = snd (snd mnist)" and
    t1: "train K epoch batch_size sample_interval s0 = Inr s1" and
    st: "same_setup s0 st" "ready st" "accuracy_scores st = accuracy_scores s1" and
    s2: "at_save_interval K sample_interval epoch st = Inr s2" "same_setup s0 s2"
        "discriminator s2 = discriminator st"
        "train K (Suc epoch) batch_size sample_interval s0 = Inr s2"
    by blast
  have eq: "X_test_masked st = X_test_masked s2" "y_test st = y_test s2"
       "X_test_masked s0 = X_test_masked s2" "y_test s0 = y_test s2"
    using st(1) s2(2) by (simp_all add: same_setup_def)
  from predictions_Inr[OF assms(1) st(2)] obtain ps where
    ps: "argmax_axis1 (snd (discriminator_predict K (discriminator st) (X_test_masked st))) = Inr ps"
        "length ps = length (y_test st)"
        "\<forall>k<length (y_test st).
             is_argmax (snd (discriminator_predict K (discriminator st) (X_test_masked st)) ! k) (ps ! k)"
    by blast
  from at_save_interval_Inr[OF assms(1) st(2) assms(3) ps(1), of epoch] s2(1)
  have "accuracy_scores s2 = accuracy_scores st @
        (if int epoch mod sample_interval = 0
         then [(masked_accuracy ps (y_test st), epoch)] else [])"
    by auto
  then have acc: "accuracy_scores s2 = accuracy_scores s1 @
        (if int epoch mod sample_interval = 0
         then [(true_divide
                  (length (filter (\<lambda>k. ps ! k = y_test s2 ! k) [0..<length (y_test s2)]))
                  (length (y_test s2)), epoch)]
         else [])"
    by (simp add: st(3) masked_accuracy_true_divide eq)
  show "\<exists>s0 s1 s2 predicted py'.
      ACGAN_init gw dw mnist py np = Inr s0 \<and>
      train K epoch batch_size sample_interval s0 = Inr s1 \<and>
      train K (Suc epoch) batch_size sample_interval s0 = Inr s2 \<and>
      mask_all (fst (snd mnist)) py = Inr (X_test_masked s2, py') \<and>
      y_test s2 = snd (snd mnist) \<and>
      argmax_axis1 (snd (discriminator_predict K (discriminator s2) (X_test_masked s2)))
        = Inr predicted \<and>
      length predicted = length (y_test s2) \<and>
      (\<forall>k<length (y_test s2).
         is_argmax (snd (discriminator_predict K (discriminator s2) (X_test_masked s2)) ! k)
           (predicted ! k)) \<and>
      accuracy_scores s2 = accuracy_scores s1 @
        (if int epoch mod sample_interval = 0
         then [(true_divide
                  (length (filter (\<lambda>k. predicted ! k = y_test s2 ! k) [0..<length (y_test s2)]))
                  (length (y_test s2)), epoch)]
         else [])"
    apply (rule exI[of _ s0], rule exI[of _ s1], rule exI[of _ s2], rule exI[of _ ps])
    apply (rule exI[of _ py'])
    using i t1 s2(3,4) ps acc eq by simp
qed

lemma recall_appended:
  assumes "keras_ok K" and "mnist_ok mnist" and "sample_interval \<noteq> 0"
  shows
  "(\<forall>s e. ready s \<longrightarrow>
      (\<exists>predicted s'.
         argmax_axis1 (snd (discriminator_predict K (discriminator s) (X_test_masked s)))
           = Inr predicted \<and>
         test_masked_accuracy K e s = Inr s' \<and>
         recall_scores s' = recall_scores s @
           [(map (class_recall predicted (y_test s)) [0..<10], e)])) \<and>
   (\<exists>s0 s1 s2 predicted recalls py'.
      ACGAN_init gw dw mnist py np = Inr s0 \<and>
      train K epoch batch_size sample_interval s0 = Inr s1 \<and>
      train K (Suc epoch) batch_size sample_interval s0 = Inr s2 \<and>
      mask_all (fst (snd mnist)) py = Inr (X_test_masked s2, py') \<and>
      y_test s2 = snd (snd mnist) \<and>
      argmax_axis1 (snd (discriminator_predict K (discriminator s2) (X_test_masked s2)))
        = Inr predicted \<and>
      length predicted = length (y_test s2) \<and>
      (\<forall>k<length (y_test s2).
         is_argmax (snd (discriminator_predict K (discriminator s2) (X_test_masked s2)) ! k)
           (predicted ! k)) \<and>
      length recalls = 10 \<and>
      (\<forall>i<10. recalls ! i =
         true_divide
           (length (filter (\<lambda>k. y_test s2 ! k = i \<and> predicted ! k = i) [0..<length (y_test s2)]))
           (length (filter (\<lambda>k. y_test s2 ! k = i) [0..<length (y_test s2)]))) \<and>
      recall_scores s2 = recall_scores s1 @
        (if int epoch mod sample_interval = 0 then [(recalls, epoch)] else []))"
proof (rule conjI)
  show "\<forall>s e. ready s \<longrightarrow>
      (\<exists>predicted s'.
         argmax_axis1 (snd (discriminator_predict K (discriminator s) (X_test_masked s)))
           = Inr predicted \<and>
         test_masked_accuracy K e s = Inr s' \<and>
         recall_scores s' = recall_scores s @
           [(map (class_recall predicted (y_test s)) [0..<10], e)])"
  proof (intro allI impI)
    fix s :: "('a, 'b) acgan" and e :: nat
    assume r: "ready s"
    from predictions_Inr[OF assms(1) r] obtain ps where
      ps: "argmax_axis1 (snd (discriminator_predict K (discriminator s) (X_test_masked s))) = Inr ps"
      and l: "length (snd (discriminator_predict K (discriminator s) (X_test_masked s))) = length (y_test s)"
      by blast
    show "\<exists>predicted s'.
         argmax_axis1 (snd (discriminator_predict K (discriminator s) (X_test_masked s)))
           = Inr predicted \<and>
         test_masked_accuracy K e s = Inr s' \<and>
         recall_scores s' = recall_scores s @
           [(map (class_recall predicted (y_test s)) [0..<10], e)]"
      using ps test_masked_accuracy_Inr[OF ps l, of e] by simp
  qed
next
  from epoch_run[OF assms, of gw dw py np epoch batch_size] obtain s0 s1 st s2 py' where
    i: "ACGAN_init gw dw mnist py np = Inr s0"
       "mask_all (fst (snd mnist)) py = Inr (X_test_masked s0, py')"
       "y_test s0 = snd (snd mnist)" and
    t1: "train K epoch batch_size sample_interval s0 = Inr s1" and
    st: "same_setup s0 st" "ready st" "recall_scores st = recall_scores s1" and
    s2: "at_save_interval K sample_interval epoch st = Inr s2" "same_setup s0 s2"
        "discriminator s2 = discriminator st"
        "train K (Suc epoch) batch_size sample_interval s0 = Inr s2"
    by blast
  have eq: "X_test_masked st = X_test_masked s2" "y_test st = y_test s2"
       "X_test_masked s0 = X_test_masked s2" "y_test s0 = y_test s2"
    using st(1) s2(2) by (simp_all add: same_setup_def)
  from predictions_Inr[OF assms(1) st(2)] obtain ps where
    ps: "argmax_axis1 (snd (discriminator_predict K (discriminator st) (X_test_masked st))) = Inr ps"
        "length ps = length (y_test st)"
        "\<forall>k<length (y_test st).
             is_argmax (snd (discriminator_predict K (discriminator st) (X_test_masked st)) ! k) (ps ! k)"
    by blast
  define recalls where "recalls = map (class_recall ps (y_test s2)) [0..<10]"
  from at_save_interval_Inr[OF assms(1) st(2) assms(3) ps(1), of epoch] s2(1)
  have "recall_scores s2 = recall_scores st @
        (if int epoch mod sample_interval = 0
         then [(map (class_recall ps (y_test st)) [0..<10], epoch)] else [])"
    by auto
  then have rec: "recall_scores s2 = recall_scores s1 @
        (if int epoch mod sample_interval = 0 then [(recalls, epoch)] else [])"
    by (simp add: st(3) recalls_def eq)
  have lr: "length recalls = 10" by (simp add: recalls_def)
  have rv: "\<forall>i<10. recalls ! i =
         true_divide
           (length (filter (\<lambda>k. y_test s2 ! k = i \<and> ps ! k = i) [0..<length (y_test s2)]))
           (length (filter (\<lambda>k. y_test s2 ! k = i) [0..<length (y_test s2)]))"
    by (simp add: recalls_def class_recall_true_divide)
  show "\<exists>s0 s1 s2 predicted recalls py'.
      ACGAN_init gw dw mnist py np = Inr s0 \<and>
      train K epoch batch_size sample_interval s0 = Inr s1 \<and>
      train K (Suc epoch) batch_size sample_interval s0 = Inr s2 \<and>
      mask_all (fst (snd mnist)) py = Inr (X_test_masked s2, py') \<and>
      y_test s2 = snd (snd mnist) \<and>
      argmax_axis1 (snd (discriminator_predict K (discriminator s2) (X_test_masked s2)))
        = Inr predicted \<and>
      length predicted = length (y_test s2) \<and>
      (\<forall>k<length (y_test s2).
         is_argmax (snd (discriminator_predict K (discriminator s2) (X_test_masked s2)) ! k)
           (predicted ! k)) \<and>
      length recalls = 10 \<and>
      (\<forall>i<10. recalls ! i =
         true_divide
           (length (filter (\<lambda>k. y_test s2 ! k = i \<and> predicted ! k = i) [0..<length (y_test s2)]))
           (length (filter (\<lambda>k. y_test s2 ! k = i) [0..<length (y_test s2)]))) \<and>
      recall_scores s2 = recall_scores s1 @
        (if int epoch mod sample_interval = 0 then [(recalls, epoch)] else [])"
    apply (rule exI[of _ s0], rule exI[of _ s1], rule exI[of _ s2], rule exI[of _ ps])
    apply (rule exI[of _ recalls], rule exI[of _ py'])
    using i t1 s2(3,4) ps rec lr rv eq by simp
qed

lemma half_mnist_ok: "mnist_ok half_mnist"
  by (simp add: mnist_ok_def half_mnist_def blank_def grid28_def)

lemma masked_accuracy_value:
  "0 < length y \<Longrightarrow>
   masked_accuracy predicted y =
     Finite (real (length (filter (\<lambda>k. predicted ! k = y ! k) [0..<length y])) / real (length y))"
  by (simp add: masked_accuracy_def)

lemma class_recall_value:
  "class_recall predicted y i =
     (if length (filter (\<lambda>k. y ! k = i) [0..<length y]) = 0 then NaN
      else Finite (real (length (filter (\<lambda>k. y ! k = i \<and> predicted ! k = i) [0..<length y])) /
                   real (length (filter (\<lambda>k. y ! k = i) [0..<length y]))))"
  by (simp add: class_recall_def)

lemma ready_tests: "ready s \<Longrightarrow> 0 < length (y_test s)"
proof -
  assume "ready s"
  then have "length (y_test s) = length (X_test s)" "100 \<le> length (X_test s)"
    by (simp_all add: ready_def)
  then show ?thesis by linarith
qed

lemma mnist_ok_tests: "mnist_ok mnist \<Longrightarrow> 0 < length (snd (snd mnist))"
proof -
  assume m: "mnist_ok mnist"
  obtain Xtr ytr Xte yte where e: "mnist = ((Xtr, ytr), (Xte, yte))"
    by (metis prod.collapse)
  have "length yte = length Xte" "100 \<le> length Xte" using m by (simp_all add: mnist_ok_def e)
  then have "0 < length yte" by linarith
  then show ?thesis by (simp add: e)
qed

lemma count_nth:
  "length (filter (\<lambda>k. P (xs ! k)) [0..<length xs]) = length (filter P xs)"
proof -
  have "filter P (map ((!) xs) [0..<length xs]) = map ((!) xs) (filter (P \<circ> (!) xs) [0..<length xs])"
    by (rule filter_map)
  then have "length (filter P xs) = length (filter (P \<circ> (!) xs) [0..<length xs])"
    by (simp add: map_nth)
  then show ?thesis by (simp add: comp_def)
qed

lemma half_labels:
  "length (filter (\<lambda>v. 0 = v) (replicate 50 (0::nat) @ replicate 50 1)) = 50"
  "length (filter (\<lambda>v. v = 0) (replicate 50 (0::nat) @ replicate 50 1)) = 50"
  "length (filter (\<lambda>v. v = 1) (replicate 50 (0::nat) @ replicate 50 1)) = 50"
  "length (filter (\<lambda>v. v = 2) (replicate 50 (0::nat) @ replicate 50 1)) = 0"
  by simp_all

text \<open>
  C3: whenever \<open>test_masked_accuracy\<close> runs it appends to \<open>accuracy_scores\<close> the pair of
  the accuracy and the epoch, the accuracy being the number of masked test images whose
  predicted label (the argmax of the class probabilities of the discriminator) is the
  true label, divided (in the reals) by the number of test labels, which is not 0.
  During \<open>train\<close>, epoch \<open>epoch\<close> appends exactly this pair when
  \<open>epoch % sample_interval == 0\<close> and nothing otherwise.
\<close>

theorem accuracy_recorded:
  assumes "keras_ok K" and "mnist_ok mnist" and "sample_interval \<noteq> 0"
  shows
  "(\<forall>s e. ready s \<longrightarrow>
      (\<exists>predicted s'.
         argmax_axis1 (snd (discriminator_predict K (discriminator s) (X_test_masked s)))
           = Inr predicted \<and>
         test_masked_accuracy K e s = Inr s' \<and>
         0 < length (y_test s) \<and>
         accuracy_scores s' = accuracy_scores s @
           [(Finite (real (length (filter (\<lambda>k. predicted ! k = y_test s ! k)
                                    [0..<length (y_test s)])) /
                     real (length (y_test s))), e)])) \<and>
   (\<exists>s0 s1 s2 predicted py'.
      ACGAN_init gw dw mnist py np = Inr s0 \<and>
      train K epoch batch_size sample_interval s0 = Inr s1 \<and>
      train K (Suc epoch) batch_size sample_interval s0 = Inr s2 \<and>
      mask_all (fst (snd mnist)) py = Inr (X_test_masked s2, py') \<and>
      y_test s2 = snd (snd mnist) \<and>
      argmax_axis1 (snd (discriminator_predict K (discriminator s2) (X_test_masked s2)))
        = Inr predicted \<and>
      length predicted = length (y_test s2) \<and>
      (\<forall>k<length (y_test s2).
         is_argmax (snd (discriminator_predict K (discriminator s2) (X_test_masked s2)) ! k)
           (predicted ! k)) \<and>
      0 < length (y_test s2) \<and>
      accuracy_scores s2 = accuracy_scores s1 @
        (if int epoch mod sample_interval = 0
         then [(Finite (real (length (filter (\<lambda>k. predicted ! k = y_test s2 ! k)
                                       [0..<length (y_test s2)])) /
                        real (length (y_test s2))), epoch)]
         else []))"
proof (rule conjI)
  show "\<forall>s e. ready s \<longrightarrow>
      (\<exists>predicted s'.
         argmax_axis1 (snd (discriminator_predict K (discriminator s) (X_test_masked s)))
           = Inr predicted \<and>
         test_masked_accuracy K e s = Inr s' \<and>
         0 < length (y_test s) \<and>
         accuracy_scores s' = accuracy_scores s @
           [(Finite (real (length (filter (\<lambda>k. predicted ! k = y_test s ! k)
                                    [0..<length (y_test s)])) /
                     real (length (y_test s))), e)])"
  proof (intro allI impI)
    fix s :: "('a, 'b) acgan" and e :: nat
    assume r: "ready s"
    have pos: "0 < length (y_test s)" using r by (rule ready_tests)
    from accuracy_appended[OF assms, THEN conjunct1, rule_format, OF r, of e]
    obtain predicted s' where
      a: "argmax_axis1 (snd (discriminator_predict K (discriminator s) (X_test_masked s)))
           = Inr predicted"
         "test_masked_accuracy K e s = Inr s'"
         "accuracy_scores s' = accuracy_scores s @ [(masked_accuracy predicted (y_test s), e)]"
      by blast
    show "\<exists>predicted s'.
         argmax_axis1 (snd (discriminator_predict K (discriminator s) (X_test_masked s)))
           = Inr predicted \<and>
         test_masked_accuracy K e s = Inr s' \<and>
         0 < length (y_test s) \<and>
         accuracy_scores s' = accuracy_scores s @
           [(Finite (real (length (filter (\<lambda>k. predicted ! k = y_test s ! k)
                                    [0..<length (y_test s)])) /
                     real (length (y_test s))), e)]"
      using a pos masked_accuracy_value[OF pos, of predicted] by auto
  qed
next
  from accuracy_appended[OF assms, THEN conjunct2, of gw dw py np epoch batch_size]
  obtain s0 s1 s2 predicted py' where
    all: "ACGAN_init gw dw mnist py np = Inr s0 \<and>
      train K epoch batch_size sample_interval s0 = Inr s1 \<and>
      train K (Suc epoch) batch_size sample_interval s0 = Inr s2 \<and>
      mask_all (fst (snd mnist)) py = Inr (X_test_masked s2, py') \<and>
      y_test s2 = snd (snd mnist) \<and>
      argmax_axis1 (snd (discriminator_predict K (discriminator s2) (X_test_masked s2)))
        = Inr predicted \<and>
      length predicted = length (y_test s2) \<and>
      (\<forall>k<length (y_test s2).
         is_argmax (snd (discriminator_predict K (discriminator s2) (X_test_masked s2)) ! k)
           (predicted ! k)) \<and>
      accuracy_scores s2 = accuracy_scores s1 @
        (if int epoch mod sample_interval = 0
         then [(true_divide
                  (length (filter (\<lambda>k. predicted ! k = y_test s2 ! k) [0..<length (y_test s2)]))
                  (length (y_test s2)), epoch)]
         else [])"
    by (elim exE) (rule that)
  have y: "y_test s2 = snd (snd mnist)" using all by blast
  have pos: "0 < length (y_test s2)" unfolding y using assms(2) by (rule mnist_ok_tests)
  have td: "true_divide
                  (length (filter (\<lambda>k. predicted ! k = y_test s2 ! k) [0..<length (y_test s2)]))
                  (length (y_test s2)) =
            Finite (real (length (filter (\<lambda>k. predicted ! k = y_test s2 ! k)
                                       [0..<length (y_test s2)])) /
                        real (length (y_test s2)))"
    using pos by (simp add: true_divide_def)
  show "\<exists>s0 s1 s2 predicted py'.
      ACGAN_init gw dw mnist py np = Inr s0 \<and>
      train K epoch batch_size sample_interval s0 = Inr s1 \<and>
      train K (Suc epoch) batch_size sample_interval s0 = Inr s2 \<and>
      mask_all (fst (snd mnist)) py = Inr (X_test_masked s2, py') \<and>
      y_test s2 = snd (snd mnist) \<and>
      argmax_axis1 (snd (discriminator_predict K (discriminator s2) (X_test_masked s2)))
        = Inr predicted \<and>
      length predicted = length (y_test s2) \<and>
      (\<forall>k<length (y_test s2).
         is_argmax (snd (discriminator_predict K (discriminator s2) (X_test_masked s2)) ! k)
           (predicted ! k)) \<and>
      0 < length (y_test s2) \<and>
      accuracy_scores s2 = accuracy_scores s1 @
        (if int epoch mod sample_interval = 0
         then [(Finite (real (length (filter (\<lambda>k. predicted ! k = y_test s2 ! k)
                                       [0..<length (y_test s2)])) /
                        real (length (y_test s2))), epoch)]
         else [])"
    apply (rule exI[of _ s0], rule exI[of _ s1], rule exI[of _ s2], rule exI[of _ predicted])
    apply (rule exI[of _ py'])
    using all pos unfolding td by simp
qed

theorem accuracy_recorded_witness:
  "keras_ok stub_keras \<and> mnist_ok half_mnist \<and> (1::int) \<noteq> 0 \<and>
   (\<exists>s0 s2. ACGAN_init () () half_mnist (\<lambda>n. 0) (\<lambda>n. 0) = Inr s0 \<and>
      train stub_keras (Suc 0) 1 1 s0 = Inr s2 \<and>
      accuracy_scores s2 = [(Finite (1 / 2), 0)])"
proof -
  have one: "(1::int) \<noteq> 0" by simp
  let ?y = "replicate 50 (0::nat) @ replicate 50 1"
  from accuracy_recorded[OF stub_keras_ok half_mnist_ok one, THEN conjunct2,
      of "()" "()" "\<lambda>n. 0" "\<lambda>n. 0" 0 1]
  obtain s0 s1 s2 predicted py' where
    all: "ACGAN_init () () half_mnist (\<lambda>n. 0) (\<lambda>n. 0) = Inr s0 \<and>
      train stub_keras 0 1 1 s0 = Inr s1 \<and>
      train stub_keras (Suc 0) 1 1 s0 = Inr s2 \<and>
      mask_all (fst (snd half_mnist)) (\<lambda>n. 0) = Inr (X_test_masked s2, py') \<and>
      y_test s2 = snd (snd half_mnist) \<and>
      argmax_axis1 (snd (discriminator_predict stub_keras (discriminator s2) (X_test_masked s2)))
        = Inr predicted \<and>
      length predicted = length (y_test s2) \<and>
      (\<forall>k<length (y_test s2).
         is_argmax (snd (discriminator_predict stub_keras (discriminator s2) (X_test_masked s2)) ! k)
           (predicted ! k)) \<and>
      0 < length (y_test s2) \<and>
      accuracy_scores s2 = accuracy_scores s1 @
        (if int 0 mod 1 = 0
         then [(Finite (real (length (filter (\<lambda>k. predicted ! k = y_test s2 ! k)
                                       [0..<length (y_test s2)])) /
                        real (length (y_test s2))), 0)]
         else [])"
    by (elim exE) (rule that)
  have i: "ACGAN_init () () half_mnist (\<lambda>n. 0) (\<lambda>n. 0) = Inr s0"
    and t0: "train stub_keras 0 1 1 s0 = Inr s1"
    and t1: "train stub_keras (Suc 0) 1 1 s0 = Inr s2"
    and xm: "mask_all (fst (snd half_mnist)) (\<lambda>n. 0) = Inr (X_test_masked s2, py')"
    and y: "y_test s2 = snd (snd half_mnist)"
    and p: "\<forall>k<length (y_test s2).
         is_argmax (snd (discriminator_predict stub_keras (discriminator s2) (X_test_masked s2)) ! k)
           (predicted ! k)"
    and acc: "accuracy_scores s2 = accuracy_scores s1 @
        (if int 0 mod 1 = 0
         then [(Finite (real (length (filter (\<lambda>k. predicted ! k = y_test s2 ! k)
                                       [0..<length (y_test s2)])) /
                        real (length (y_test s2))), 0)]
         else [])"
    using all by blast+
  have s1: "s1 = s0" using t0 by (simp add: train_0)
  have a0: "accuracy_scores s0 = []" using ACGAN_init_fields[OF i] by simp
  have yv: "y_test s2 = ?y" using y by (simp add: half_mnist_def)
  have ly: "length (y_test s2) = 100" by (simp add: yv)
  have lx: "length (X_test_masked s2) = 100"
    using mask_all_nth[OF xm] by (simp add: half_mnist_def)
  have pz: "\<forall>k<100. predicted ! k = 0"
    using stub_predictions[OF lx, of "discriminator s2" predicted] p by (simp add: ly)
  have "filter (\<lambda>k. predicted ! k = y_test s2 ! k) [0..<length (y_test s2)] =
        filter (\<lambda>k. 0 = y_test s2 ! k) [0..<length (y_test s2)]"
    using pz by (intro filter_cong) (simp_all add: ly)
  then have "length (filter (\<lambda>k. predicted ! k = y_test s2 ! k) [0..<length (y_test s2)]) =
        length (filter (\<lambda>v. 0 = v) (y_test s2))"
    by (simp only: count_nth)
  then have cnt: "length (filter (\<lambda>k. predicted ! k = y_test s2 ! k) [0..<length (y_test s2)]) = 50"
    by (simp only: yv half_labels)
  have cnt100: "length (filter (\<lambda>k. predicted ! k = y_test s2 ! k) [0..<100]) = 50"
    using cnt by (simp only: ly)
  have "accuracy_scores s2 = [(Finite (1 / 2), 0)]"
    using acc by (simp add: s1 a0 ly cnt100)
  then show ?thesis using stub_keras_ok half_mnist_ok one i t1 by blast
qed

text \<open>
  C4: for every class \<open>i\<close> from 0 to 9 the recall recorded is the number of masked test
  images of true label \<open>i\<close> whose predicted label is \<open>i\<close>, divided (in the reals) by the
  number of test images of true label \<open>i\<close>; when there is no such image the division
  is 0 / 0 and numpy records \<open>nan\<close>. The list of the ten recalls is appended to
  \<open>recall_scores\<close> with the epoch.
\<close>

theorem recall_recorded:
  assumes "keras_ok K" and "mnist_ok mnist" and "sample_interval \<noteq> 0"
  shows
  "(\<forall>s e. ready s \<longrightarrow>
      (\<exists>predicted recalls s'.
         argmax_axis1 (snd (discriminator_predict K (discriminator s) (X_test_masked s)))
           = Inr predicted \<and>
         test_masked_accuracy K e s = Inr s' \<and>
         recall_scores s' = recall_scores s @ [(recalls, e)] \<and>
         length recalls = 10 \<and>
         (\<forall>i<10. recalls ! i =
            (if length (filter (\<lambda>k. y_test s ! k = i) [0..<length (y_test s)]) = 0 then NaN
             else Finite
               (real (length (filter (\<lambda>k. y_test s ! k = i \<and> predicted ! k = i)
                                [0..<length (y_test s)])) /
                real (length (filter (\<lambda>k. y_test s ! k = i) [0..<length (y_test s)]))))))) \<and>
   (\<exists>s0 s1 s2 predicted recalls py'.
      ACGAN_init gw dw mnist py np = Inr s0 \<and>
      train K epoch batch_size sample_interval s0 = Inr s1 \<and>
      train K (Suc epoch) batch_size sample_interval s0 = Inr s2 \<and>
      mask_all (fst (snd mnist)) py = Inr (X_test_masked s2, py') \<and>
      y_test s2 = snd (snd mnist) \<and>
      argmax_axis1 (snd (discriminator_predict K (discriminator s2) (X_test_masked s2)))
        = Inr predicted \<and>
      length predicted = length (y_test s2) \<and>
      (\<forall>k<length (y_test s2).
         is_argmax (snd (discriminator_predict K (discriminator s2) (X_test_masked s2)) ! k)
           (predicted ! k)) \<and>
      length recalls = 10 \<and>
      (\<forall>i<10. recalls ! i =
         (if length (filter (\<lambda>k. y_test s2 ! k = i) [0..<length (y_test s2)]) = 0 then NaN
          else Finite
            (real (length (filter (\<lambda>k. y_test s2 ! k = i \<and> predicted ! k = i)
                             [0..<length (y_test s2)])) /
             real (length (filter (\<lambda>k. y_test s2 ! k = i) [0..<length (y_test s2)]))))) \<and>
      recall_scores s2 = recall_scores s1 @
        (if int epoch mod sample_interval = 0 then [(recalls, epoch)] else []))"
proof (rule conjI)
  show "\<forall>s e. ready s \<longrightarrow>
      (\<exists>predicted recalls s'.
         argmax_axis1 (snd (discriminator_predict K (discriminator s) (X_test_masked s)))
           = Inr predicted \<and>
         test_masked_accuracy K e s = Inr s' \<and>
         recall_scores s' = recall_scores s @ [(recalls, e)] \<and>
         length recalls = 10 \<and>
         (\<forall>i<10. recalls ! i =
            (if length (filter (\<lambda>k. y_test s ! k = i) [0..<length (y_test s)]) = 0 then NaN
             else Finite
               (real (length (filter (\<lambda>k. y_test s ! k = i \<and> predicted ! k = i)
                                [0..<length (y_test s)])) /
                real (length (filter (\<lambda>k. y_test s ! k = i) [0..<length (y_test s)]))))))"
  proof (intro allI impI)
    fix s :: "('a, 'b) acgan" and e :: nat
    assume r: "ready s"
    from recall_appended[OF assms, THEN conjunct1, rule_format, OF r, of e]
    obtain predicted s' where
      a: "argmax_axis1 (snd (discriminator_predict K (discriminator s) (X_test_masked s)))
           = Inr predicted"
         "test_masked_accuracy K e s = Inr s'"
         "recall_scores s' = recall_scores s @
            [(map (class_recall predicted (y_test s)) [0..<10], e)]"
      by blast
    define recalls where "recalls = map (class_recall predicted (y_test s)) [0..<10]"
    have l: "length recalls = 10" by (simp add: recalls_def)
    have v: "\<forall>i<10. recalls ! i =
            (if length (filter (\<lambda>k. y_test s ! k = i) [0..<length (y_test s)]) = 0 then NaN
             else Finite
               (real (length (filter (\<lambda>k. y_test s ! k = i \<and> predicted ! k = i)
                                [0..<length (y_test s)])) /
                real (length (filter (\<lambda>k. y_test s ! k = i) [0..<length (y_test s)]))))"
      by (simp add: recalls_def class_recall_value)
    show "\<exists>predicted recalls s'.
         argmax_axis1 (snd (discriminator_predict K (discriminator s) (X_test_masked s)))
           = Inr predicted \<and>
         test_masked_accuracy K e s = Inr s' \<and>
         recall_scores s' = recall_scores s @ [(recalls, e)] \<and>
         length recalls = 10 \<and>
         (\<forall>i<10. recalls ! i =
            (if length (filter (\<lambda>k. y_test s ! k = i) [0..<length (y_test s)]) = 0 then NaN
             else Finite
               (real (length (filter (\<lambda>k. y_test s ! k = i \<and> predicted ! k = i)
                                [0..<length (y_test s)])) /
                real (length (filter (\<lambda>k. y_test s ! k = i) [0..<length (y_test s)])))))"
      apply (rule exI[of _ predicted], rule exI[of _ recalls], rule exI[of _ s'])
      using a l v unfolding recalls_def[symmetric] by simp
  qed
next
  from recall_appended[OF assms, THEN conjunct2, of gw dw py np epoch batch_size]
  obtain s0 s1 s2 predicted recalls py' where
    all: "ACGAN_init gw dw mnist py np = Inr s0 \<and>
      train K epoch batch_size sample_interval s0 = Inr s1 \<and>
      train K (Suc epoch) batch_size sample_interval s0 = Inr s2 \<and>
      mask_all (fst (snd mnist)) py = Inr (X_test_masked s2, py') \<and>
      y_test s2 = snd (snd mnist) \<and>
      argmax_axis1 (snd (discriminator_predict K (discriminator s2) (X_test_masked s2)))
        = Inr predicted \<and>
      length predicted = length (y_test s2) \<and>
      (\<forall>k<length (y_test s2).
         is_argmax (snd (discriminator_predict K (discriminator s2) (X_test_masked s2)) ! k)
           (predicted ! k)) \<and>
      length recalls = 10 \<and>
      (\<forall>i<10. recalls ! i =
         true_divide
           (length (filter (\<lambda>k. y_test s2 ! k = i \<and> predicted ! k = i) [0..<length (y_test s2)]))
           (length (filter (\<lambda>k. y_test s2 ! k = i) [0..<length (y_test s2)]))) \<and>
      recall_scores s2 = recall_scores s1 @
        (if int epoch mod sample_interval = 0 then [(recalls, epoch)] else [])"
    by (elim exE) (rule that)
  have rv: "\<forall>i<10. recalls ! i =
         true_divide
           (length (filter (\<lambda>k. y_test s2 ! k = i \<and> predicted ! k = i) [0..<length (y_test s2)]))
           (length (filter (\<lambda>k. y_test s2 ! k = i) [0..<length (y_test s2)]))"
    using all by blast
  have v: "\<forall>i<10. recalls ! i =
         (if length (filter (\<lambda>k. y_test s2 ! k = i) [0..<length (y_test s2)]) = 0 then NaN
          else Finite
            (real (length (filter (\<lambda>k. y_test s2 ! k = i \<and> predicted ! k = i)
                             [0..<length (y_test s2)])) /
             real (length (filter (\<lambda>k. y_test s2 ! k = i) [0..<length (y_test s2)]))))"
  proof (intro allI impI)
    fix i :: nat assume i: "i < 10"
    have "recalls ! i = class_recall predicted (y_test s2) i"
      using rv i by (simp add: class_recall_true_divide)
    then show "recalls ! i =
         (if length (filter (\<lambda>k. y_test s2 ! k = i) [0..<length (y_test s2)]) = 0 then NaN
          else Finite
            (real (length (filter (\<lambda>k. y_test s2 ! k = i \<and> predicted ! k = i)
                             [0..<length (y_test s2)])) /
             real (length (filter (\<lambda>k. y_test s2 ! k = i) [0..<length (y_test s2)]))))"
      by (simp only: class_recall_value)
  qed
  show "\<exists>s0 s1 s2 predicted recalls py'.
      ACGAN_init gw dw mnist py np = Inr s0 \<and>
      train K epoch batch_size sample_interval s0 = Inr s1 \<and>
      train K (Suc epoch) batch_size sample_interval s0 = Inr s2 \<and>
      mask_all (fst (snd mnist)) py = Inr (X_test_masked s2, py') \<and>
      y_test s2 = snd (snd mnist) \<and>
      argmax_axis1 (snd (discriminator_predict K (discriminator s2) (X_test_masked s2)))
        = Inr predicted \<and>
      length predicted = length (y_test s2) \<and>
      (\<forall>k<length (y_test s2).
         is_argmax (snd (discriminator_predict K (discriminator s2) (X_test_masked s2)) ! k)
           (predicted ! k)) \<and>
      length recalls = 10 \<and>
      (\<forall>i<10. recalls ! i =
         (if length (filter (\<lambda>k. y_test s2 ! k = i) [0..<length (y_test s2)]) = 0 then NaN
          else Finite
            (real (length (filter (\<lambda>k. y_test s2 ! k = i \<and> predicted ! k = i)
                             [0..<length (y_test s2)])) /
             real (length (filter (\<lambda>k. y_test s2 ! k = i) [0..<length (y_test s2)]))))) \<and>
      recall_scores s2 = recall_scores s1 @
        (if int epoch mod sample_interval = 0 then [(recalls, epoch)] else [])"
    apply (rule exI[of _ s0], rule exI[of _ s1], rule exI[of _ s2], rule exI[of _ predicted])
    apply (rule exI[of _ recalls], rule exI[of _ py'])
    using all v by blast
qed

theorem recall_recorded_witness:
  "keras_ok stub_keras \<and> mnist_ok half_mnist \<and> (1::int) \<noteq> 0 \<and>
   (\<exists>s0 s2 recalls. ACGAN_init () () half_mnist (\<lambda>n. 0) (\<lambda>n. 0) = Inr s0 \<and>
      train stub_keras (Suc 0) 1 1 s0 = Inr s2 \<and>
      recall_scores s2 = [(recalls, 0)] \<and> length recalls = 10 \<and>
      recalls ! 0 = Finite (50 / 50) \<and> recalls ! 1 = Finite (0 / 50) \<and> recalls ! 2 = NaN)"
proof -
  have one: "(1::int) \<noteq> 0" by simp
  let ?y = "replicate 50 (0::nat) @ replicate 50 1"
  from recall_recorded[OF stub_keras_ok half_mnist_ok one, THEN conjunct2,
      of "()" "()" "\<lambda>n. 0" "\<lambda>n. 0" 0 1]
  obtain s0 s1 s2 predicted recalls py' where
    all: "ACGAN_init () () half_mnist (\<lambda>n. 0) (\<lambda>n. 0) = Inr s0 \<and>
      train stub_keras 0 1 1 s0 = Inr s1 \<and>
      train stub_keras (Suc 0) 1 1 s0 = Inr s2 \<and>
      mask_all (fst (snd half_mnist)) (\<lambda>n. 0) = Inr (X_test_masked s2, py') \<and>
      y_test s2 = snd (snd half_mnist) \<and>
      argmax_axis1 (snd (discriminator_predict stub_keras (discriminator s2) (X_test_masked s2)))
        = Inr predicted \<and>
      length predicted = length (y_test s2) \<and>
      (\<forall>k<length (y_test s2).
         is_argmax (snd (discriminator_predict stub_keras (discriminator s2) (X_test_masked s2)) ! k)
           (predicted ! k)) \<and>
      length recalls = 10 \<and>
      (\<forall>i<10. recalls ! i =
         (if length (filter (\<lambda>k. y_test s2 ! k = i) [0..<length (y_test s2)]) = 0 then NaN
          else Finite
            (real (length (filter (\<lambda>k. y_test s2 ! k = i \<and> predicted ! k = i)
                             [0..<length (y_test s2)])) /
             real (length (filter (\<lambda>k. y_test s2 ! k = i) [0..<length (y_test s2)]))))) \<and>
      recall_scores s2 = recall_scores s1 @
        (if int 0 mod 1 = 0 then [(recalls, 0)] else [])"
    by (elim exE) (rule that)
  have i: "ACGAN_init () () half_mnist (\<lambda>n. 0) (\<lambda>n. 0) = Inr s0"
    and t0: "train stub_keras 0 1 1 s0 = Inr s1"
    and t1: "train stub_keras (Suc 0) 1 1 s0 = Inr s2"
    and xm: "mask_all (fst (snd half_mnist)) (\<lambda>n. 0) = Inr (X_test_masked s2, py')"
    and y: "y_test s2 = snd (snd half_mnist)"
    and p: "\<forall>k<length (y_test s2).
         is_argmax (snd (discriminator_predict stub_keras (discriminator s2) (X_test_masked s2)) ! k)
           (predicted ! k)"
    and lr: "length recalls = 10"
    and rv: "\<forall>i<10. recalls ! i =
         (if length (filter (\<lambda>k. y_test s2 ! k = i) [0..<length (y_test s2)]) = 0 then NaN
          else Finite
            (real (length (filter (\<lambda>k. y_test s2 ! k = i \<and> predicted ! k = i)
                             [0..<length (y_test s2)])) /
             real (length (filter (\<lambda>k. y_test s2 ! k = i) [0..<length (y_test s2)]))))"
    and rec: "recall_scores s2 = recall_scores s1 @
        (if int 0 mod 1 = 0 then [(recalls, 0)] else [])"
    using all by blast+
  have s1: "s1 = s0" using t0 by (simp add: train_0)
  have a0: "recall_scores s0 = []" using ACGAN_init_fields[OF i] by simp
  have yv: "y_test s2 = ?y" using y by (simp add: half_mnist_def)
  have ly: "length (y_test s2) = 100" by (simp add: yv)
  have lx: "length (X_test_masked s2) = 100"
    using mask_all_nth[OF xm] by (simp add: half_mnist_def)
  have pz: "\<forall>k<100. predicted ! k = 0"
    using stub_predictions[OF lx, of "discriminator s2" predicted] p by (simp add: ly)
  have n: "length (filter (\<lambda>k. y_test s2 ! k = c) [0..<length (y_test s2)]) =
           length (filter (\<lambda>v. v = c) ?y)" for c
    using count_nth[of "\<lambda>v. v = c" "y_test s2"] by (simp only: yv)
  have n0: "length (filter (\<lambda>k. y_test s2 ! k = 0) [0..<length (y_test s2)]) = 50"
    and n1: "length (filter (\<lambda>k. y_test s2 ! k = 1) [0..<length (y_test s2)]) = 50"
    and n2: "length (filter (\<lambda>k. y_test s2 ! k = 2) [0..<length (y_test s2)]) = 0"
    by (simp_all only: n half_labels)
  have "filter (\<lambda>k. y_test s2 ! k = 0 \<and> predicted ! k = 0) [0..<length (y_test s2)] =
        filter (\<lambda>k. y_test s2 ! k = 0) [0..<length (y_test s2)]"
    using pz by (intro filter_cong) (simp_all add: ly)
  then have h0: "length (filter (\<lambda>k. y_test s2 ! k = 0 \<and> predicted ! k = 0)
                   [0..<length (y_test s2)]) = 50"
    using n0 by simp
  have "filter (\<lambda>k. y_test s2 ! k = 1 \<and> predicted ! k = 1) [0..<length (y_test s2)] = []"
    using pz by (intro filter_none) (simp add: ly)
  then have h1: "length (filter (\<lambda>k. y_test s2 ! k = 1 \<and> predicted ! k = 1)
                   [0..<length (y_test s2)]) = 0"
    by simp
  have r0: "recalls ! 0 = Finite (50 / 50)"
    using rv[rule_format, of 0] by (simp only: n0 h0) simp
  have r1: "recalls ! 1 = Finite (0 / 50)"
    using rv[rule_format, of 1] by (simp only: n1 h1) simp
  have r2: "recalls ! 2 = NaN"
    using rv[rule_format, of 2] by (simp only: n2) simp
  have "recall_scores s2 = [(recalls, 0)]" using rec by (simp add: s1 a0)
  then show ?thesis using stub_keras_ok half_mnist_ok one i t1 lr r0 r1 r2 by blast
qed

text \<open>
  C7: the order of an epoch of \<open>train\<close>. A batch of \<open>batch_size\<close> indices is drawn and
  the images at them are taken; each is masked; the generator predicts from the masked
  batch; the discriminator is trained on the real batch with target 1 and the true
  labels, then, from the weights this leaves, on the generated batch with target 0 and
  the same labels; the two lists of losses are added and halved; last the combined
  model, compiled while the discriminator was not trainable, is trained on the masked
  batch with target 1 and the true labels, and leaves the discriminator as it was.
\<close>

theorem epoch_order:
  assumes "keras_ok K" and "mnist_ok mnist" and "sample_interval \<noteq> 0"
  shows
  "\<exists>s0 s1 s2 X idx np' imgs masked_imgs py' gen_imgs img_labels
      d_loss_real dw1 d_loss_fake dw2 d_loss g_loss gw3 sampled.
     ACGAN_init gw dw mnist py np = Inr s0 \<and>
     train K epoch batch_size sample_interval s0 = Inr s1 \<and>
     train K (Suc epoch) batch_size sample_interval s0 = Inr s2 \<and>
     X = map (\<lambda>a. expand_dims_last (scale_pixels a)) (fst (fst mnist)) \<and>
     np_random_randint (length X) batch_size (np_random s1) = Inr (idx, np') \<and>
     length idx = batch_size \<and> (\<forall>i\<in>set idx. i < length X) \<and>
     imgs = map ((!) X) idx \<and>
     mask_all imgs (py_random s1) = Inr (masked_imgs, py') \<and>
     length masked_imgs = batch_size \<and>
     (\<forall>j<batch_size. \<exists>g1 g2. mask_default (imgs ! j) g1 = Inr (masked_imgs ! j, g2)) \<and>
     gen_imgs = generator_predict K (generator s1) masked_imgs \<and>
     img_labels = map ((!) (snd (fst mnist))) idx \<and>
     discriminator_train_on_batch K True (discriminator s1) imgs (replicate batch_size 1) img_labels
       = (d_loss_real, dw1) \<and>
     discriminator_train_on_batch K True dw1 gen_imgs (replicate batch_size 0) img_labels
       = (d_loss_fake, dw2) \<and>
     length d_loss = 5 \<and> (\<forall>k<5. d_loss ! k = 0.5 * (d_loss_real ! k + d_loss_fake ! k)) \<and>
     combined_train_on_batch K False (generator s1) dw2 masked_imgs (replicate batch_size 1) img_labels
       = (g_loss, gw3, dw2) \<and>
     generator s2 = gw3 \<and> discriminator s2 = dw2 \<and>
     calls s2 = calls s1 @
       [NpRandomRandint 0 (int (length X)) batch_size,
        GeneratorPredict masked_imgs,
        DiscriminatorTrainOnBatch True imgs (replicate batch_size 1) img_labels,
        DiscriminatorTrainOnBatch True gen_imgs (replicate batch_size 0) img_labels,
        CombinedTrainOnBatch False masked_imgs (replicate batch_size 1) img_labels,
        Print epoch (d_loss ! 0) (100 * d_loss ! 3) (100 * d_loss ! 4) (g_loss ! 0)] @
       (if int epoch mod sample_interval = 0
        then [SaveModel ''generator'', SaveModel ''discriminator'',
              GeneratorPredict sampled, SaveSamples epoch,
              DiscriminatorPredict (X_test_masked s2),
              SaveFig ''images/accuracy.png'', SaveFig ''images/recall.png'']
        else [])"
proof -
  from epoch_run[OF assms, of gw dw py np epoch batch_size] obtain s0 s1 st s2 where
    i: "ACGAN_init gw dw mnist py np = Inr s0"
       "X_train s0 = fst (fst mnist)" "y_train s0 = snd (fst mnist)" and
    t1: "train K epoch batch_size sample_interval s0 = Inr s1" "same_setup s0 s1" "ready s1" and
    st: "train_step K batch_size (map (\<lambda>a. expand_dims_last (scale_pixels a)) (X_train s0))
           (y_train s0) (replicate batch_size 1) (replicate batch_size 0) epoch s1 = Inr st"
        "ready st" and
    s2: "at_save_interval K sample_interval epoch st = Inr s2"
        "train K (Suc epoch) batch_size sample_interval s0 = Inr s2"
    by blast
  define X where "X = map (\<lambda>a. expand_dims_last (scale_pixels a)) (fst (fst mnist))"
  define y where "y = snd (fst mnist)"
  have Xs: "X = map (\<lambda>a. expand_dims_last (scale_pixels a)) (X_train s1)" "y = y_train s1"
    using t1(2) i(2,3) by (simp_all add: X_def y_def same_setup_def)
  have x1: "0 < length X" "length y = length X" using t1(3) by (simp_all add: Xs ready_def)
  have x2: "\<forall>a\<in>set X. shape a = [28, 28, 1]" unfolding Xs using t1(3) by (rule train_batch_shapes)
  have c: "discriminator_compiled s1" "\<not> combined_compiled s1"
    using t1(3) by (simp_all add: ready_def)
  from train_step_Inr[OF assms(1) x1 x2 c, of batch_size "replicate batch_size 1"
      "replicate batch_size 0" epoch]
  obtain idx np' imgs masked_imgs py' gen_imgs img_labels d_loss_real dw1 d_loss_fake dw2
          g_loss gw3 d_loss where
    a: "np_random_randint (length X) batch_size (np_random s1) = Inr (idx, np')"
       "length idx = batch_size" "\<forall>i\<in>set idx. i < length X"
       "imgs = map ((!) X) idx"
       "mask_all imgs (py_random s1) = Inr (masked_imgs, py')"
       "length masked_imgs = batch_size"
       "gen_imgs = generator_predict K (generator s1) masked_imgs"
       "img_labels = map ((!) y) idx"
       "discriminator_train_on_batch K True (discriminator s1) imgs (replicate batch_size 1) img_labels
          = (d_loss_real, dw1)"
       "discriminator_train_on_batch K True dw1 gen_imgs (replicate batch_size 0) img_labels
          = (d_loss_fake, dw2)"
       "combined_train_on_batch K False (generator s1) dw2 masked_imgs (replicate batch_size 1) img_labels
          = (g_loss, gw3, dw2)"
       "length d_loss = 5" "\<forall>k<5. d_loss ! k = 0.5 * (d_loss_real ! k + d_loss_fake ! k)" and
    run: "train_step K batch_size X y (replicate batch_size 1) (replicate batch_size 0) epoch s1 =
        Inr (s1\<lparr>generator := gw3, discriminator := dw2, py_random := py', np_random := np',
               calls := calls s1 @
                 [NpRandomRandint 0 (int (length X)) batch_size,
                  GeneratorPredict masked_imgs,
                  DiscriminatorTrainOnBatch True imgs (replicate batch_size 1) img_labels,
                  DiscriminatorTrainOnBatch True gen_imgs (replicate batch_size 0) img_labels,
                  CombinedTrainOnBatch False masked_imgs (replicate batch_size 1) img_labels,
                  Print epoch (d_loss ! 0) (100 * d_loss ! 3) (100 * d_loss ! 4) (g_loss ! 0)]\<rparr>)"
    by blast
  have st_eq: "st = s1\<lparr>generator := gw3, discriminator := dw2, py_random := py', np_random := np',
               calls := calls s1 @
                 [NpRandomRandint 0 (int (length X)) batch_size,
                  GeneratorPredict masked_imgs,
                  DiscriminatorTrainOnBatch True imgs (replicate batch_size 1) img_labels,
                  DiscriminatorTrainOnBatch True gen_imgs (replicate batch_size 0) img_labels,
                  CombinedTrainOnBatch False masked_imgs (replicate batch_size 1) img_labels,
                  Print epoch (d_loss ! 0) (100 * d_loss ! 3) (100 * d_loss ! 4) (g_loss ! 0)]\<rparr>"
    using st(1) run by (simp add: X_def y_def i(2,3))
  from predictions_Inr[OF assms(1) st(2)] obtain ps where
    ps: "argmax_axis1 (snd (discriminator_predict K (discriminator st) (X_test_masked st))) = Inr ps"
    by blast
  from at_save_interval_Inr[OF assms(1) st(2) assms(3) ps, of epoch] s2(1)
  obtain sampled py2 where
    s2_eq: "s2 = (if int epoch mod sample_interval = 0
             then st\<lparr>py_random := py2,
                    accuracy_scores := accuracy_scores st @ [(masked_accuracy ps (y_test st), epoch)],
                    recall_scores := recall_scores st @
                       [(map (class_recall ps (y_test st)) [0..<10], epoch)],
                    calls := calls st @
                       [SaveModel ''generator'', SaveModel ''discriminator'',
                        GeneratorPredict sampled, SaveSamples epoch,
                        DiscriminatorPredict (X_test_masked st),
                        SaveFig ''images/accuracy.png'', SaveFig ''images/recall.png'']\<rparr>
             else st)"
    by auto
  have g2: "generator s2 = gw3" "discriminator s2 = dw2"
    by (simp_all add: s2_eq st_eq)
  have xm: "X_test_masked s2 = X_test_masked st" by (simp add: s2_eq)
  have cl: "calls s2 = calls s1 @
       [NpRandomRandint 0 (int (length X)) batch_size,
        GeneratorPredict masked_imgs,
        DiscriminatorTrainOnBatch True imgs (replicate batch_size 1) img_labels,
        DiscriminatorTrainOnBatch True gen_imgs (replicate batch_size 0) img_labels,
        CombinedTrainOnBatch False masked_imgs (replicate batch_size 1) img_labels,
        Print epoch (d_loss ! 0) (100 * d_loss ! 3) (100 * d_loss ! 4) (g_loss ! 0)] @
       (if int epoch mod sample_interval = 0
        then [SaveModel ''generator'', SaveModel ''discriminator'',
              GeneratorPredict sampled, SaveSamples epoch,
              DiscriminatorPredict (X_test_masked s2),
              SaveFig ''images/accuracy.png'', SaveFig ''images/recall.png'']
        else [])"
    unfolding xm by (simp add: s2_eq) (simp add: st_eq)
  have each: "\<forall>j<batch_size. \<exists>g1 g2. mask_default (imgs ! j) g1 = Inr (masked_imgs ! j, g2)"
    using mask_all_nth[OF a(5)] a(6) by simp
  show ?thesis
    apply (rule exI[of _ s0], rule exI[of _ s1], rule exI[of _ s2], rule exI[of _ X])
    apply (rule exI[of _ idx], rule exI[of _ np'], rule exI[of _ imgs], rule exI[of _ masked_imgs])
    apply (rule exI[of _ py'], rule exI[of _ gen_imgs], rule exI[of _ img_labels])
    apply (rule exI[of _ d_loss_real], rule exI[of _ dw1], rule exI[of _ d_loss_fake])
    apply (rule exI[of _ dw2], rule exI[of _ d_loss], rule exI[of _ g_loss], rule exI[of _ gw3])
    apply (rule exI[of _ sampled])
    using i(1) t1(1) s2(2) X_def a(1-7) a(8)[unfolded y_def] a(9-13) each g2 cl
    by simp
qed

theorem epoch_order_witness:
  "keras_ok stub_keras \<and> mnist_ok toy_mnist \<and> (1::int) \<noteq> 0 \<and>
   (\<exists>s0 s2 x masked. ACGAN_init () () toy_mnist (\<lambda>n. 0) (\<lambda>n. 0) = Inr s0 \<and>
      train stub_keras (Suc 0) 1 1 s0 = Inr s2 \<and>
      length (calls s2) = 13 \<and>
      calls s2 ! 0 = NpRandomRandint 0 1 1 \<and>
      calls s2 ! 1 = GeneratorPredict masked \<and>
      calls s2 ! 2 = DiscriminatorTrainOnBatch True x [1] [0] \<and>
      calls s2 ! 3 = DiscriminatorTrainOnBatch True masked [0] [0] \<and>
      calls s2 ! 4 = CombinedTrainOnBatch False masked [1] [0])"
proof -
  have one: "(1::int) \<noteq> 0" by simp
  from epoch_order[OF stub_keras_ok toy_mnist_ok one, of "()" "()" "\<lambda>n. 0" "\<lambda>n. 0" 0 1]
  obtain s0 s1 s2 X idx np' imgs masked_imgs py' gen_imgs img_labels
      d_loss_real dw1 d_loss_fake dw2 d_loss g_loss gw3 sampled where
    all: "ACGAN_init () () toy_mnist (\<lambda>n. 0) (\<lambda>n. 0) = Inr s0 \<and>
     train stub_keras 0 1 1 s0 = Inr s1 \<and>
     train stub_keras (Suc 0) 1 1 s0 = Inr s2 \<and>
     X = map (\<lambda>a. expand_dims_last (scale_pixels a)) (fst (fst toy_mnist)) \<and>
     np_random_randint (length X) 1 (np_random s1) = Inr (idx, np') \<and>
     length idx = 1 \<and> (\<forall>i\<in>set idx. i < length X) \<and>
     imgs = map ((!) X) idx \<and>
     mask_all imgs (py_random s1) = Inr (masked_imgs, py') \<and>
     length masked_imgs = 1 \<and>
     (\<forall>j<1. \<exists>g1 g2. mask_default (imgs ! j) g1 = Inr (masked_imgs ! j, g2)) \<and>
     gen_imgs = generator_predict stub_keras (generator s1) masked_imgs \<and>
     img_labels = map ((!) (snd (fst toy_mnist))) idx \<and>
     discriminator_train_on_batch stub_keras True (discriminator s1) imgs (replicate 1 1) img_labels
       = (d_loss_real, dw1) \<and>
     discriminator_train_on_batch stub_keras True dw1 gen_imgs (replicate 1 0) img_labels
       = (d_loss_fake, dw2) \<and>
     length d_loss = 5 \<and> (\<forall>k<5. d_loss ! k = 0.5 * (d_loss_real ! k + d_loss_fake ! k)) \<and>
     combined_train_on_batch stub_keras False (generator s1) dw2 masked_imgs (replicate 1 1) img_labels
       = (g_loss, gw3, dw2) \<and>
     generator s2 = gw3 \<and> discriminator s2 = dw2 \<and>
     calls s2 = calls s1 @
       [NpRandomRandint 0 (int (length X)) 1,
        GeneratorPredict masked_imgs,
        DiscriminatorTrainOnBatch True imgs (replicate 1 1) img_labels,
        DiscriminatorTrainOnBatch True gen_imgs (replicate 1 0) img_labels,
        CombinedTrainOnBatch False masked_imgs (replicate 1 1) img_labels,
        Print 0 (d_loss ! 0) (100 * d_loss ! 3) (100 * d_loss ! 4) (g_loss ! 0)] @
       (if int 0 mod 1 = 0
        then [SaveModel ''generator'', SaveModel ''discriminator'',
              GeneratorPredict sampled, SaveSamples 0,
              DiscriminatorPredict (X_test_masked s2),
              SaveFig ''images/accuracy.png'', SaveFig ''images/recall.png'']
        else [])"
    by (elim exE) (rule that)
  have i: "ACGAN_init () () toy_mnist (\<lambda>n. 0) (\<lambda>n. 0) = Inr s0"
    and t0: "train stub_keras 0 1 1 s0 = Inr s1"
    and t1: "train stub_keras (Suc 0) 1 1 s0 = Inr s2"
    and X: "X = map (\<lambda>a. expand_dims_last (scale_pixels a)) (fst (fst toy_mnist))"
    and idx: "length idx = 1" "\<forall>i\<in>set idx. i < length X"
    and g: "gen_imgs = generator_predict stub_keras (generator s1) masked_imgs"
    and l: "img_labels = map ((!) (snd (fst toy_mnist))) idx"
    and c: "calls s2 = calls s1 @
       [NpRandomRandint 0 (int (length X)) 1,
        GeneratorPredict masked_imgs,
        DiscriminatorTrainOnBatch True imgs (replicate 1 1) img_labels,
        DiscriminatorTrainOnBatch True gen_imgs (replicate 1 0) img_labels,
        CombinedTrainOnBatch False masked_imgs (replicate 1 1) img_labels,
        Print 0 (d_loss ! 0) (100 * d_loss ! 3) (100 * d_loss ! 4) (g_loss ! 0)] @
       (if int 0 mod 1 = 0
        then [SaveModel ''generator'', SaveModel ''discriminator'',
              GeneratorPredict sampled, SaveSamples 0,
              DiscriminatorPredict (X_test_masked s2),
              SaveFig ''images/accuracy.png'', SaveFig ''images/recall.png'']
        else [])"
    using all by blast+
  have s1: "s1 = s0" using t0 by (simp add: train_0)
  have c0: "calls s0 = []" using ACGAN_init_fields[OF i] by simp
  have lX: "length X = 1" by (simp add: X toy_mnist_def)
  obtain j where j: "idx = [j]" using idx(1) by (cases idx) auto
  then have "j = 0" using idx(2) lX by simp
  then have lab: "img_labels = [0]" using l j by (simp add: toy_mnist_def)
  have gen: "gen_imgs = masked_imgs" using g by (simp add: stub_keras_def)
  have cs: "calls s2 =
       [NpRandomRandint 0 1 1,
        GeneratorPredict masked_imgs,
        DiscriminatorTrainOnBatch True imgs [1] [0],
        DiscriminatorTrainOnBatch True masked_imgs [0] [0],
        CombinedTrainOnBatch False masked_imgs [1] [0],
        Print 0 (d_loss ! 0) (100 * d_loss ! 3) (100 * d_loss ! 4) (g_loss ! 0),
        SaveModel ''generator'', SaveModel ''discriminator'',
        GeneratorPredict sampled, SaveSamples 0,
        DiscriminatorPredict (X_test_masked s2),
        SaveFig ''images/accuracy.png'', SaveFig ''images/recall.png'']"
    using c by (simp add: s1 c0 lX lab gen)
  have "length (calls s2) = 13 \<and>
      calls s2 ! 0 = NpRandomRandint 0 1 1 \<and>
      calls s2 ! 1 = GeneratorPredict masked_imgs \<and>
      calls s2 ! 2 = DiscriminatorTrainOnBatch True imgs [1] [0] \<and>
      calls s2 ! 3 = DiscriminatorTrainOnBatch True masked_imgs [0] [0] \<and>
      calls s2 ! 4 = CombinedTrainOnBatch False masked_imgs [1] [0]"
    by (simp add: cs)
  then show ?thesis using stub_keras_ok toy_mnist_ok one i t1 by blast
qed

section \<open>The outputs of the discriminator\<close>

lemma sigmoid_range: "0 < sigmoid x \<and> sigmoid x < 1"
proof -
  have p: "0 < 1 + exp (- x)" by (simp add: add_pos_pos)
  have "1 / (1 + exp (- x)) < 1" using p by (simp add: divide_less_eq_1)
  then show ?thesis using p by (simp add: sigmoid_def)
qed

lemma sum_list_exp_pos: "xs \<noteq> [] \<Longrightarrow> 0 < sum_list (map exp (xs :: real list))"
proof (induction xs)
  case Nil
  then show ?case by simp
next
  case (Cons x xs)
  have "0 \<le> sum_list (map exp xs)" by (rule sum_list_nonneg) auto
  moreover have "0 < exp x" by simp
  ultimately show ?case by (simp add: add_pos_nonneg)
qed

lemma elem_le_sum_list_real:
  "\<forall>x\<in>set xs. 0 \<le> x \<Longrightarrow> k < length xs \<Longrightarrow> xs ! k \<le> sum_list (xs :: real list)"
proof (induction xs arbitrary: k)
  case Nil
  then show ?case by simp
next
  case (Cons x xs)
  have nn: "0 \<le> sum_list xs" using Cons.prems(1) by (intro sum_list_nonneg) simp
  show ?case
  proof (cases k)
    case 0
    then show ?thesis using nn by simp
  next
    case (Suc n)
    then have "xs ! n \<le> sum_list xs" using Cons by simp
    moreover have "0 \<le> x" using Cons.prems(1) by simp
    ultimately show ?thesis using Suc by simp
  qed
qed

lemma softmax_distribution:
  assumes "xs \<noteq> []"
  shows "length (softmax xs) = length xs \<and> (\<forall>k<length xs. 0 \<le> softmax xs ! k \<and> softmax xs ! k \<le> 1) \<and>
         sum_list (softmax xs) = 1"
proof -
  let ?S = "sum_list (map exp xs)"
  have S: "0 < ?S" using assms by (rule sum_list_exp_pos)
  have sm: "softmax xs = map (\<lambda>x. exp x * (1 / ?S)) xs" by (simp add: softmax_def)
  have "sum_list (softmax xs) = sum_list (map exp xs) * (1 / ?S)"
    unfolding sm by (simp only: sum_list_mult_const[symmetric] map_map comp_def)
  then have one: "sum_list (softmax xs) = 1" using S by simp
  have nn: "\<forall>y\<in>set (softmax xs). 0 \<le> y" using S by (auto simp: softmax_def)
  have "\<forall>k<length xs. 0 \<le> softmax xs ! k \<and> softmax xs ! k \<le> 1"
  proof (intro allI impI)
    fix k assume k: "k < length xs"
    then have kl: "k < length (softmax xs)" by (simp add: softmax_def)
    then have "softmax xs ! k \<in> set (softmax xs)" by simp
    then have "0 \<le> softmax xs ! k" using nn by blast
    moreover have "softmax xs ! k \<le> 1" using elem_le_sum_list_real[OF nn kl] one by simp
    ultimately show "0 \<le> softmax xs ! k \<and> softmax xs ! k \<le> 1" by simp
  qed
  then show ?thesis using one by (simp add: softmax_def)
qed

lemma dense_layer_length: "length (dense_layer units w b x) = units"
  by (simp add: dense_layer_def)

text \<open>
  C6: the discriminator takes an image of shape \<open>img_shape\<close> = (28, 28, 1) to two
  outputs: one validity score, a sigmoid, between 0 and 1, and \<open>num_classes\<close> = 10
  class probabilities, a softmax: each between 0 and 1, of sum 1, whose argmax is a
  class label below 10.
\<close>

theorem discriminator_two_outputs:
  "img_shape = [28, 28, 1] \<and> num_classes = 10 \<and>
   (\<exists>v label p.
      build_discriminator W img = ([v], label) \<and>
      v = sigmoid (hd (dense_layer 1 (validity_kernel W) (validity_bias W) (features_of W img))) \<and>
      label = softmax (dense_layer num_classes (label_kernel W) (label_bias W) (features_of W img)) \<and>
      0 \<le> v \<and> v \<le> 1 \<and>
      length label = num_classes \<and>
      (\<forall>k<num_classes. 0 \<le> label ! k \<and> label ! k \<le> 1) \<and>
      sum_list label = 1 \<and>
      argmax label = Inr p \<and> is_argmax label p \<and> p < num_classes)"
proof -
  let ?f = "features_of W img"
  let ?d = "dense_layer num_classes (label_kernel W) (label_bias W) ?f"
  let ?x = "sum_list (map (\<lambda>i. ?f ! i * validity_kernel W i 0) [0..<length ?f]) + validity_bias W 0"
  have v: "dense_layer 1 (validity_kernel W) (validity_bias W) ?f = [?x]"
    by (simp add: dense_layer_def)
  have ld: "length ?d = num_classes" by (rule dense_layer_length)
  then have ne: "?d \<noteq> []" by (auto simp: num_classes_def)
  from softmax_distribution[OF ne] have
    sl: "length (softmax ?d) = num_classes" and
    sr: "\<forall>k<num_classes. 0 \<le> softmax ?d ! k \<and> softmax ?d ! k \<le> 1" and
    ss: "sum_list (softmax ?d) = 1"
    using ld by simp_all
  have "softmax ?d \<noteq> []" using sl by (auto simp: num_classes_def)
  from argmax_Inr[OF this] obtain p where
    p: "argmax (softmax ?d) = Inr p" "is_argmax (softmax ?d) p" by blast
  then have pl: "p < num_classes" using sl by (simp add: is_argmax_iff)
  have b: "build_discriminator W img = ([sigmoid ?x], softmax ?d)"
    unfolding build_discriminator_def Let_def v by simp
  have sg: "0 \<le> sigmoid ?x" "sigmoid ?x \<le> 1"
    using sigmoid_range[of ?x] by simp_all
  have "\<exists>v label p.
      build_discriminator W img = ([v], label) \<and>
      v = sigmoid (hd (dense_layer 1 (validity_kernel W) (validity_bias W) ?f)) \<and>
      label = softmax ?d \<and>
      0 \<le> v \<and> v \<le> 1 \<and>
      length label = num_classes \<and>
      (\<forall>k<num_classes. 0 \<le> label ! k \<and> label ! k \<le> 1) \<and>
      sum_list label = 1 \<and>
      argmax label = Inr p \<and> is_argmax label p \<and> p < num_classes"
    apply (rule exI[of _ "sigmoid ?x"], rule exI[of _ "softmax ?d"], rule exI[of _ p])
    unfolding v using b sg sl sr ss p pl by simp
  then show ?thesis by (simp add: img_shape_def img_rows_def img_cols_def channels_def num_classes_def)
qed

theorem discriminator_two_outputs_witness:
  "\<exists>label. build_discriminator zero_weights blank = ([1 / 2], label) \<and>
     length label = 10 \<and> 0 \<le> label ! 3 \<and> label ! 3 \<le> 1 \<and> sum_list label = 1"
proof -
  from discriminator_two_outputs[of zero_weights blank] obtain v label where
    b: "build_discriminator zero_weights blank = ([v], label)" and
    v: "v = sigmoid (hd (dense_layer 1 (validity_kernel zero_weights) (validity_bias zero_weights)
                       (features_of zero_weights blank)))" and
    l: "length label = num_classes" and
    r: "\<forall>k<num_classes. 0 \<le> label ! k \<and> label ! k \<le> 1" and
    s: "sum_list label = 1"
    by blast
  have "v = 1 / 2" unfolding v by (simp add: zero_weights_def dense_layer_def sigmoid_def)
  moreover have "0 \<le> label ! 3 \<and> label ! 3 \<le> 1" using r by (simp add: num_classes_def)
  ultimately show ?thesis using b l s by (auto simp: num_classes_def)
qed

end
